theory Spec2Isabelle
  imports Main "HOL-Library.Sublist" "HOL-Library.AList"
begin

section \<open>utils/tfgen.go: the configuration file generator\<close>

subsection \<open>Strings of the standard library\<close>

text \<open>
  A Go string is a byte sequence: \<open>string\<close>. An \<open>error\<close> value is modelled by the text
  its \<open>Error()\<close> method returns; a Go \<open>nil\<close> error is \<open>None\<close>.
\<close>

type_synonym err = string

text \<open>\<open>strings.Contains(s, sub)\<close>: \<open>sub\<close> occurs in \<open>s\<close> as a contiguous run of bytes.\<close>

fun Contains :: "string \<Rightarrow> string \<Rightarrow> bool" where
  "Contains [] sub = (sub = [])"
| "Contains (x # s) sub = (prefix sub (x # s) \<or> Contains s sub)"

text \<open>\<open>strings.HasPrefix(s, p)\<close>.\<close>

definition HasPrefix :: "string \<Rightarrow> string \<Rightarrow> bool" where
  "HasPrefix s p = prefix p s"

text \<open>\<open>strings.Split(s, sep)\<close> for a separator of one byte: always at least one piece.\<close>

fun Split :: "string \<Rightarrow> char \<Rightarrow> string list" where
  "Split [] sep = [[]]"
| "Split (x # s) sep =
     (if x = sep then [] # Split s sep
      else (case Split s sep of [] \<Rightarrow> [[x]] | w # ws \<Rightarrow> (x # w) # ws))"

text \<open>\<open>strings.Join(elems, sep)\<close>.\<close>

fun Join :: "string list \<Rightarrow> string \<Rightarrow> string" where
  "Join [] sep = []"
| "Join [l] sep = l"
| "Join (l # m # ls) sep = l @ sep @ Join (m # ls) sep"

subsection \<open>Slices over a store of backing arrays\<close>

text \<open>
  A Go slice is a view of a backing array. \<open>Generate\<close> starts with
  \<open>var lines []string = c.BodyLines\<close>, which copies the slice header only: both slices then
  view one array, and a write through \<open>lines\<close> is seen through \<open>c.BodyLines\<close>. The store
  maps an address to the array that starts at a slice's first element, so the capacity of a
  slice is the length of that array; \<open>brk\<close> is the next address \<open>append\<close> allocates at.
\<close>

type_synonym addr = nat

record store =
  arrays :: "addr \<Rightarrow> string list"
  brk :: addr

record slice =
  ptr :: addr
  len :: nat

definition cap :: "store \<Rightarrow> slice \<Rightarrow> nat" where
  "cap h s = length (arrays h (ptr s))"

text \<open>The elements a slice holds: the first \<open>len\<close> cells of its array.\<close>

definition view :: "store \<Rightarrow> slice \<Rightarrow> string list" where
  "view h s = take (len s) (arrays h (ptr s))"

text \<open>
  The builtin \<open>copy(dst, src)\<close>, for a destination that starts at cell \<open>off\<close> of the array
  \<open>a\<close> and has \<open>dlen\<close> elements: it copies \<open>min(len(dst), len(src))\<close> elements, and reads
  the source before it writes (the two may overlap).
\<close>

definition copy_cells :: "string list \<Rightarrow> nat \<Rightarrow> nat \<Rightarrow> string list \<Rightarrow> string list" where
  "copy_cells a off dlen src =
     (let k = min dlen (length src) in take off a @ take k src @ drop (off + k) a)"

text \<open>
  Lines 104 to 106 of \<open>Generate\<close>, at the index \<open>i\<close> of the matching line:
  \<open>copy(lines[i:], lines[i+1:])\<close>, \<open>lines[len(lines)-1] = ""\<close>,
  \<open>lines = lines[:len(lines)-1]\<close>. All three work on the array \<open>lines\<close> views.
\<close>

definition removeAt :: "store \<Rightarrow> slice \<Rightarrow> nat \<Rightarrow> store \<times> slice" where
  "removeAt h s i =
     (let a = arrays h (ptr s);
          n = len s;
          a1 = copy_cells a i (n - i) (drop (Suc i) (take n a));
          a2 = a1[n - 1 := []]
      in (h\<lparr>arrays := (arrays h)(ptr s := a2)\<rparr>, s\<lparr>len := n - 1\<rparr>))"

text \<open>
  The builtin \<open>append(s, x)\<close>: with spare capacity it writes the cell after the last
  element of the same array; without, it allocates a new array, copies the elements and
  leaves the old array as it was. The capacity of the new array is the runtime's choice
  (\<open>growcap\<close>, at least the length needed); its spare cells hold the zero value \<open>""\<close>.
\<close>

definition append1 :: "(nat \<Rightarrow> nat) \<Rightarrow> store \<Rightarrow> slice \<Rightarrow> string \<Rightarrow> store \<times> slice" where
  "append1 growcap h s x =
     (let a = arrays h (ptr s); n = len s in
      if n < length a
      then (h\<lparr>arrays := (arrays h)(ptr s := a[n := x])\<rparr>, s\<lparr>len := Suc n\<rparr>)
      else (let k = max (Suc n) (growcap (length a)); p = brk h in
            (h\<lparr>arrays := (arrays h)(p := take n a @ [x] @ replicate (k - Suc n) []),
               brk := Suc p\<rparr>,
             \<lparr>ptr = p, len = Suc n\<rparr>)))"

subsection \<open>TerraformFileConfig\<close>

text \<open>
  A flag as \<open>Generate\<close> reads it: \<open>f.Name\<close> and \<open>f.Value.String()\<close>.
  \<open>Flags\<close> stands for what \<open>c.Flags.Visit\<close> enumerates: the flags that were set, in the
  order \<open>Visit\<close> calls its argument (the standard library's \<open>flag.FlagSet\<close>: by name).
\<close>

record flag =
  Name :: string
  Value :: string

record TerraformFileConfig =
  Flags :: "flag list"
  ListFlags :: "string list"
  MapFlags :: "string list"
  PreLines :: "string list"
  BodyLines :: slice
  PostLines :: "string list"
  BodyPrefix :: string

text \<open>
  The collaborators of \<open>Generate\<close> outside the repository: \<open>json.Marshal\<close> on a string
  (it cannot fail there), \<open>printer.Format\<close> of the HCL library (\<open>Inl\<close> its error), the
  capacity the runtime gives a reallocated slice, and the order in which \<open>range\<close> visits
  the keys of a map (Go leaves it unspecified).
\<close>

record genv =
  Marshal :: "string \<Rightarrow> string"
  Format :: "string \<Rightarrow> err + string"
  growcap :: "nat \<Rightarrow> nat"
  rangeOrder :: "string list \<Rightarrow> string list"

text \<open>The loop of \<open>IsList\<close> (lines 72 to 77), and of \<open>IsMap\<close> (lines 81 to 86).\<close>

fun inNames :: "string list \<Rightarrow> string \<Rightarrow> bool" where
  "inNames [] name = False"
| "inNames (n # ns) name = (if n = name then True else inNames ns name)"

definition IsList :: "TerraformFileConfig \<Rightarrow> string \<Rightarrow> bool" where
  "IsList c name = inNames (ListFlags c) name"

text \<open>\<open>IsMap\<close> ranges over \<open>c.ListFlags\<close> too, as the source has it.\<close>

definition IsMap :: "TerraformFileConfig \<Rightarrow> string \<Rightarrow> bool" where
  "IsMap c name = inNames (ListFlags c) name"

subsection \<open>Generate\<close>

text \<open>
  The variables of \<open>Generate\<close>: the store, \<open>lines\<close>, \<open>errs\<close>, and the two maps (a Go
  map as an association list with distinct keys).
\<close>

record gen_state =
  mem :: store
  lines :: slice
  errs :: "err list"
  listValues :: "(string \<times> string list) list"
  mapValues :: "(string \<times> (string \<times> string) list) list"

text \<open>The loop of lines 102 to 109 finds the first line that contains the name.\<close>

fun findLine :: "string list \<Rightarrow> string \<Rightarrow> nat option" where
  "findLine [] name = None"
| "findLine (l # ls) name =
     (if Contains l name then Some 0 else map_option Suc (findLine ls name))"

definition removeLine :: "string \<Rightarrow> gen_state \<Rightarrow> gen_state" where
  "removeLine name st =
     (case findLine (view (mem st) (lines st)) name of
        None \<Rightarrow> st
      | Some i \<Rightarrow>
          (case removeAt (mem st) (lines st) i of
             (h, s) \<Rightarrow> st\<lparr>mem := h, lines := s\<rparr>))"

text \<open>\<open>lines = append(lines, x)\<close>.\<close>

definition appendLine :: "genv \<Rightarrow> string \<Rightarrow> gen_state \<Rightarrow> gen_state" where
  "appendLine env x st =
     (case append1 (growcap env) (mem st) (lines st) x of
        (h, s) \<Rightarrow> st\<lparr>mem := h, lines := s\<rparr>)"

text \<open>The function \<open>Generate\<close> passes to \<open>Visit\<close> (lines 100 to 143), for one flag.\<close>

definition visit :: "genv \<Rightarrow> TerraformFileConfig \<Rightarrow> flag \<Rightarrow> gen_state \<Rightarrow> gen_state" where
  "visit env c f st =
     (let st1 = removeLine (Name f) st in
      if IsList c (Name f) then
        (let vals = (case map_of (listValues st1) (Name f) of Some v \<Rightarrow> v | None \<Rightarrow> [])
         in st1\<lparr>listValues := AList.update (Name f) (vals @ [Value f]) (listValues st1)\<rparr>)
      else if IsList c (Name f) then
        (let kv = Split (Value f) (CHR ''='') in
         if length kv < 2
         then st1\<lparr>errs := errs st1 @
                [''Could not parse '' @ [CHR 0x27] @ Value f @ [CHR 0x27] @
                 '': Expected key=value format'']\<rparr>
         else
           (let vals = (case map_of (mapValues st1) (Name f) of Some v \<Rightarrow> v | None \<Rightarrow> [])
            in st1\<lparr>mapValues :=
                 AList.update (Name f) (AList.update (kv ! 0) (kv ! 1) vals) (mapValues st1)\<rparr>))
      else
        appendLine env (Name f @ '' = '' @ Marshal env (Value f)) st1)"

text \<open>
  \<open>range\<close> over a map: every entry once, in an order the program does not choose. The
  keys \<open>rangeOrder\<close> lists come first, in its order; the other entries follow.
\<close>

definition ranged :: "genv \<Rightarrow> (string \<times> 'v) list \<Rightarrow> (string \<times> 'v) list" where
  "ranged env al =
     (let ord = remdups (rangeOrder env (map fst al)) in
      concat (map (\<lambda>k. case map_of al k of None \<Rightarrow> [] | Some v \<Rightarrow> [(k, v)]) ord) @
      filter (\<lambda>kv. fst kv \<notin> set ord) al)"

text \<open>The body of the loop of lines 146 to 154, and of the loop of lines 157 to 165.\<close>

definition expandList :: "genv \<Rightarrow> string \<times> string list \<Rightarrow> gen_state \<Rightarrow> gen_state" where
  "expandList env e st =
     fold (appendLine env)
       ([[], fst e @ '' = [''] @
        map (\<lambda>item. ''  '' @ Marshal env item @ '','') (snd e) @
        ['']''])
       st"

definition expandMap :: "genv \<Rightarrow> string \<times> (string \<times> string) list \<Rightarrow> gen_state \<Rightarrow> gen_state" where
  "expandMap env e st =
     fold (appendLine env)
       ([[], fst e @ '' = {''] @
        map (\<lambda>kv. ''  '' @ fst kv @ '' = '' @ Marshal env (snd kv)) (ranged env (snd e)) @
        [''}''])
       st"

text \<open>
  Lines 94 to 165: the visit of every flag that was set, then the two expansions.
\<close>

definition start :: "TerraformFileConfig \<Rightarrow> store \<Rightarrow> gen_state" where
  "start c h = \<lparr>mem = h, lines = BodyLines c, errs = [], listValues = [], mapValues = []\<rparr>"

definition expand :: "genv \<Rightarrow> gen_state \<Rightarrow> gen_state" where
  "expand env st1 =
     (let st2 = fold (expandList env) (ranged env (listValues st1)) st1
      in fold (expandMap env) (ranged env (mapValues st2)) st2)"

definition mergeFlags :: "genv \<Rightarrow> TerraformFileConfig \<Rightarrow> store \<Rightarrow> gen_state" where
  "mergeFlags env c h = expand env (fold (visit env c) (Flags c) (start c h))"

text \<open>
  Lines 167 to 172: the text handed to the formatter. \<open>PreLines\<close> and \<open>PostLines\<close> are
  taken to have backing arrays of their own, which nothing here writes to.
\<close>

definition compose :: "genv \<Rightarrow> TerraformFileConfig \<Rightarrow> store \<Rightarrow> store \<times> string" where
  "compose env c h =
     (let st = mergeFlags env c h;
          allLines = PreLines c @ view (mem st) (BodyLines c) @ view (mem st) (lines st) @
                     PostLines c
      in (mem st, Join allLines [CHR 0x0A]))"

text \<open>
  \<open>Generate\<close>: the store it leaves, and \<open>(content, nil)\<close> as \<open>Inr content\<close> or
  \<open>(nil, err)\<close> as \<open>Inl\<close> of the error's text. \<open>errs\<close> is never read.
\<close>

definition Generate :: "genv \<Rightarrow> TerraformFileConfig \<Rightarrow> store \<Rightarrow> store \<times> (err + string)" where
  "Generate env c h =
     (case compose env c h of
        (h', content) \<Rightarrow>
          (case Format env content of
             Inl e \<Rightarrow> (h', Inl (''Could not format output: '' @ e))
           | Inr out \<Rightarrow> (h', Inr out)))"

section \<open>main.go: the command router and the plugin lifecycle\<close>

subsection \<open>What a run does: results and events\<close>

text \<open>
  A run of a part of \<open>main.go\<close> ends by returning a value (\<open>Done\<close>), by leaving the
  process with a status (\<open>Exit\<close>, from \<open>os.Exit\<close>), or by a runtime panic. What it does on
  the way is a list of events, in order: the lines it prints, the messages it hands to
  \<open>PrintInfo\<close> and \<open>FatalError\<close>, and every call to a collaborator (the sandbox, the
  terraform wrapper, a plugin, a plugin's command) with what the call returned.
\<close>

datatype 'a res = Done 'a | Exit nat | Panic string

datatype event =
    Print string
  | Info string
  | Fatal string
  | EvGetwd "err + string"
  | EvOpenSandbox string "err option"
  | EvHasTerraform bool
  | EvGetTerraform "err option"
  | EvHasTerraformFiles "err + bool"
  | EvReload "err option"
  | EvInvoke "string list" "err option"
  | EvIsUsed string "err + bool"
  | EvBeforeRun string bool "err option"
  | EvAfterRun string "err option" "err option"
  | EvHandle string "string list" "err option"
  | EvCompleteUpgrade string
  | EvGetLatestVersion "err + string"
  | EvPerformUpgrade string "err option"

text \<open>
  The collaborators work on the directory, the file system and the network: the world, of a
  type \<open>'w\<close> the model leaves open. A part of the program takes the world and gives its
  result, the world it leaves and the events it added.
\<close>

type_synonym ('w, 'a) prog = "'w \<Rightarrow> 'a res \<times> 'w \<times> event list"

definition ret :: "'a \<Rightarrow> ('w, 'a) prog" where
  "ret x = (\<lambda>w. (Done x, w, []))"

text \<open>Sequencing: what follows runs only when the first part returned.\<close>

definition bnd :: "('w, 'a) prog \<Rightarrow> ('a \<Rightarrow> ('w, 'b) prog) \<Rightarrow> ('w, 'b) prog" where
  "bnd m f =
     (\<lambda>w. case m w of
        (Done x, w1, t1) \<Rightarrow> (case f x w1 of (r, w2, t2) \<Rightarrow> (r, w2, t1 @ t2))
      | (Exit n, w1, t1) \<Rightarrow> (Exit n, w1, t1)
      | (Panic p, w1, t1) \<Rightarrow> (Panic p, w1, t1))"

definition emits :: "event list \<Rightarrow> ('w, unit) prog" where
  "emits es = (\<lambda>w. (Done (), w, es))"

text \<open>A call to a collaborator: its answer, the world it leaves, and the event of it.\<close>

definition call :: "('w \<Rightarrow> 'r \<times> 'w) \<Rightarrow> ('r \<Rightarrow> event) \<Rightarrow> ('w, 'r) prog" where
  "call f ev = (\<lambda>w. case f w of (x, w') \<Rightarrow> (Done x, w', [ev x]))"

definition osExit :: "nat \<Rightarrow> ('w, 'a) prog" where
  "osExit n = (\<lambda>w. (Exit n, w, []))"

definition panic :: "string \<Rightarrow> ('w, 'a) prog" where
  "panic msg = (\<lambda>w. (Panic msg, w, []))"

text \<open>
  Modelled from the spec: \<open>FatalError\<close> of package \<open>utils\<close> is not among the sources. The
  spec has a fatal error print its message and terminate the process with a non-zero status
  (section 7), which is exit code 1 (section 6). Nothing after a call to it runs.
\<close>

definition FatalError :: "err \<Rightarrow> ('w, 'a) prog" where
  "FatalError e = (\<lambda>w. (Exit 1, w, [Fatal e]))"

text \<open>
  Modelled from the spec: \<open>PrintInfo\<close> of package \<open>utils\<close> is not among the sources. It is
  the colourised terminal output the spec leaves to a collaborator: it writes the message
  and returns. The escape codes of \<open>Bold\<close> are left out of the message.
\<close>

definition PrintInfo :: "string \<Rightarrow> ('w, unit) prog" where
  "PrintInfo msg = emits [Info msg]"

subsection \<open>Plugins, commands and the other collaborators\<close>

record 'w command =
  cmdName :: string
  cmdDescription :: string
  Handle :: "string list \<Rightarrow> 'w \<Rightarrow> err option \<times> 'w"

record 'w plugin =
  GetName :: string
  GetCommands :: "'w command list"
  IsUsed :: "'w \<Rightarrow> (err + bool) \<times> 'w"
  BeforeRun :: "bool \<Rightarrow> 'w \<Rightarrow> err option \<times> 'w"
  AfterRun :: "err option \<Rightarrow> 'w \<Rightarrow> err option \<times> 'w"

text \<open>
  \<open>plugins\<close> is the registry of line 16. The sandbox of the working directory and its
  terraform wrapper are part of the world; their methods, the two constants of other
  packages and the functions of the self-upgrade are parameters. A Go result
  \<open>(value, error)\<close> is a sum, \<open>Inl\<close> the error.
\<close>

record 'w env =
  plugins :: "'w plugin list"
  RequiredTerraformVersionPrefix :: string
  buildVersion :: string
  Getwd :: "'w \<Rightarrow> (err + string) \<times> 'w"
  OpenSandbox :: "string \<Rightarrow> 'w \<Rightarrow> err option \<times> 'w"
  HasTerraform :: "'w \<Rightarrow> bool \<times> 'w"
  GetTerraform :: "'w \<Rightarrow> err option \<times> 'w"
  HasTerraformFiles :: "'w \<Rightarrow> (err + bool) \<times> 'w"
  ReloadTerraformProject :: "'w \<Rightarrow> err option \<times> 'w"
  Invoke :: "string list \<Rightarrow> 'w \<Rightarrow> err option \<times> 'w"
  semverValid :: "string \<Rightarrow> bool"
  GetLatestVersion :: "'w \<Rightarrow> (err + string) \<times> 'w"
  newerThan :: "string \<Rightarrow> string \<Rightarrow> bool"
  PerformUpgrade :: "string \<Rightarrow> 'w \<Rightarrow> err option \<times> 'w"
  CompleteUpgrade :: "string \<Rightarrow> 'w \<Rightarrow> unit \<times> 'w"

definition knownTerraformCommands :: "string list" where
  "knownTerraformCommands =
     [''apply'', ''console'', ''destroy'', ''env'', ''fmt'', ''get'', ''graph'', ''import'',
      ''init'', ''output'', ''plan'', ''providers'', ''push'', ''refresh'', ''show'', ''taint'',
      ''untaint'', ''validate'', ''version'', ''workspace'', ''0.12checklist'', ''debug'',
      ''force-unlock'', ''state'']"

subsection \<open>The help screens\<close>

text \<open>The verb \<open>%-18s\<close>: the string, then blanks up to eighteen characters.\<close>

definition pad18 :: "string \<Rightarrow> string" where
  "pad18 s = s @ replicate (18 - length s) (CHR '' '')"

definition missingTerraformHelpLines :: "'w env \<Rightarrow> event list" where
  "missingTerraformHelpLines env =
     [Print ''Your system does not have terraform installed, or it's version is not'',
      Print (''compatible with our '' @ RequiredTerraformVersionPrefix env @
             ''x requirements. This means we cannot show you''),
      Print ''the terraform help screen. '',
      Print [],
      Print ''This tool will automatically download the correct terraform version and'',
      Print ''place it in your current project directory when you try to use the'',
      Print ''following commands for the first time:'']"

definition showMissingTerraformHelp :: "'w env \<Rightarrow> ('w, unit) prog" where
  "showMissingTerraformHelp env = emits (missingTerraformHelpLines env)"

text \<open>
  The lines \<open>showPluginHelp\<close> prints: the heading, the two commands of the tool itself, and
  one line for every command of every plugin, in the order of the registry.
\<close>

definition commandLine :: "'w command \<Rightarrow> event" where
  "commandLine cmd = Print (''    '' @ pad18 (cmdName cmd) @ '' '' @ cmdDescription cmd)"

definition pluginHelpLines :: "'w env \<Rightarrow> string \<Rightarrow> event list" where
  "pluginHelpLines env arg0 =
     [Print [],
      Print ''DC/OS Commands:'',
      Print (''    '' @ pad18 ''wheels-version'' @ '' Check the version of '' @ arg0),
      Print (''    '' @ pad18 ''wheels-upgrade'' @ '' Upgrade to the latest version of '' @ arg0)] @
     concat (map (\<lambda>plugin. map commandLine (GetCommands plugin)) (plugins env))"

definition showPluginHelp :: "'w env \<Rightarrow> string \<Rightarrow> ('w, unit) prog" where
  "showPluginHelp env arg0 = emits (pluginHelpLines env arg0)"

text \<open>\<open>shouldShowHelp\<close> (lines 58 to 65); nothing in \<open>main.go\<close> calls it.\<close>

definition shouldShowHelp :: "string list \<Rightarrow> bool" where
  "shouldShowHelp args = list_ex (\<lambda>arg. Contains arg ''help'') args"

definition showHelp :: "'w env \<Rightarrow> string \<Rightarrow> ('w, unit) prog" where
  "showHelp env arg0 =
     bnd (call (HasTerraform env) EvHasTerraform) (\<lambda>has.
     bnd (if has
          then bnd (call (GetTerraform env) EvGetTerraform) (\<lambda>err.
                 case err of
                   Some e \<Rightarrow> FatalError e
                 | None \<Rightarrow> bnd (call (Invoke env []) (EvInvoke [])) (\<lambda>_. ret ()))
          else showMissingTerraformHelp env) (\<lambda>_.
     bnd (showPluginHelp env arg0) (\<lambda>_.
     osExit 1)))"

subsection \<open>The plugin lifecycle\<close>

text \<open>The loop of lines 94 to 99.\<close>

fun preRun :: "'w plugin list \<Rightarrow> bool \<Rightarrow> ('w, unit) prog" where
  "preRun [] isInit = ret ()"
| "preRun (plugin # rest) isInit =
     bnd (call (BeforeRun plugin isInit) (EvBeforeRun (GetName plugin) isInit)) (\<lambda>err.
       case err of
         Some e \<Rightarrow> FatalError (''Could not start '' @ GetName plugin @ '': '' @ e)
       | None \<Rightarrow> preRun rest isInit)"

text \<open>
  The loop of lines 105 to 110. The message of line 108 takes \<open>err.Error()\<close>, the error of
  the terraform run, not \<open>perr\<close>: with \<open>err\<close> nil the call panics.
\<close>

fun postRun :: "'w plugin list \<Rightarrow> err option \<Rightarrow> ('w, unit) prog" where
  "postRun [] err = ret ()"
| "postRun (plugin # rest) err =
     bnd (call (AfterRun plugin err) (EvAfterRun (GetName plugin) err)) (\<lambda>perr.
       case perr of
         Some pe \<Rightarrow>
           (case err of
              None \<Rightarrow> panic ''runtime error: invalid memory address or nil pointer dereference''
            | Some e \<Rightarrow> FatalError (''Could not finalize '' @ GetName plugin @ '': '' @ e))
       | None \<Rightarrow> postRun rest err)"

definition invokeTerraform :: "'w env \<Rightarrow> 'w plugin list \<Rightarrow> string list \<Rightarrow> ('w, unit) prog" where
  "invokeTerraform env ps args =
     (let isInit = list_ex (\<lambda>arg. arg = ''init'') args in
      bnd (preRun ps isInit) (\<lambda>_.
      bnd (call (Invoke env args) (EvInvoke args)) (\<lambda>err.
      postRun ps err)))"

text \<open>The loop of \<open>loadPlugins\<close> (lines 115 to 125), with \<open>loadedPlugins\<close> so far.\<close>

fun loadLoop :: "'w plugin list \<Rightarrow> 'w plugin list \<Rightarrow> ('w, 'w plugin list) prog" where
  "loadLoop [] loadedPlugins = ret loadedPlugins"
| "loadLoop (plugin # rest) loadedPlugins =
     bnd (call (IsUsed plugin) (EvIsUsed (GetName plugin))) (\<lambda>r.
       case r of
         Inl e \<Rightarrow> FatalError e
       | Inr used \<Rightarrow>
           if used
           then bnd (PrintInfo (''Using plugin '' @ GetName plugin)) (\<lambda>_.
                  loadLoop rest (loadedPlugins @ [plugin]))
           else loadLoop rest loadedPlugins)"

definition loadPlugins :: "'w env \<Rightarrow> ('w, 'w plugin list) prog" where
  "loadPlugins env = loadLoop (plugins env) []"

subsection \<open>main\<close>

text \<open>
  \<open>os.Args\<close> is the name of the program, \<open>arg0\<close>, and then the arguments \<open>args\<close>; so
  \<open>os.Args[1:]\<close> is \<open>args\<close> and \<open>os.Args[2:]\<close> is \<open>drop 1 args\<close>.
\<close>

text \<open>Lines 190 to 198: some argument is one of the known terraform commands.\<close>

definition isTerraformCommand :: "string list \<Rightarrow> bool" where
  "isTerraformCommand args =
     list_ex (\<lambda>cmd. list_ex (\<lambda>arg. arg = cmd) args) knownTerraformCommands"

text \<open>
  Lines 201 to 210: \<open>scanCommand as i\<close> is \<open>(cmd_i, cmd_n)\<close> when the loop stands at index
  \<open>i\<close> of \<open>os.Args\<close> with \<open>as\<close> still to read.
\<close>

fun scanCommand :: "string list \<Rightarrow> nat \<Rightarrow> nat \<times> string" where
  "scanCommand [] i = (0, [])"
| "scanCommand (a # as) i =
     (if HasPrefix a ''-'' then scanCommand as (Suc i) else (i, a))"

text \<open>Lines 219 to 221: the first command of the first plugin that has the name.\<close>

fun findCommand :: "'w command list \<Rightarrow> string \<Rightarrow> 'w command option" where
  "findCommand [] cmd_n = None"
| "findCommand (cmd # cmds) cmd_n =
     (if cmdName cmd = cmd_n then Some cmd else findCommand cmds cmd_n)"

fun findPluginCommand :: "'w plugin list \<Rightarrow> string \<Rightarrow> 'w command option" where
  "findPluginCommand [] cmd_n = None"
| "findPluginCommand (plugin # rest) cmd_n =
     (case findCommand (GetCommands plugin) cmd_n of
        Some cmd \<Rightarrow> Some cmd
      | None \<Rightarrow> findPluginCommand rest cmd_n)"

text \<open>Lines 240 to 248: the first terraform files are there, so \<open>init\<close> runs.\<close>

definition initialize :: "'w env \<Rightarrow> ('w, unit) prog" where
  "initialize env =
     bnd (PrintInfo ''Terraform project created, initializing now'') (\<lambda>_.
     bnd (call (ReloadTerraformProject env) EvReload) (\<lambda>err.
       case err of
         Some e \<Rightarrow> FatalError e
       | None \<Rightarrow>
     bnd (loadPlugins env) (\<lambda>loadedPlugins.
     invokeTerraform env loadedPlugins [''init''])))"

text \<open>Lines 222 to 251: the command of a plugin was found.\<close>

definition dispatch :: "'w env \<Rightarrow> 'w command \<Rightarrow> string list \<Rightarrow> bool \<Rightarrow> ('w, unit) prog" where
  "dispatch env cmd args hasTfFiles =
     bnd (call (GetTerraform env) EvGetTerraform) (\<lambda>err.
       case err of
         Some e \<Rightarrow> FatalError e
       | None \<Rightarrow>
     bnd (call (Handle cmd (drop 1 args)) (EvHandle (cmdName cmd) (drop 1 args))) (\<lambda>err.
       case err of
         Some e \<Rightarrow> FatalError e
       | None \<Rightarrow>
     bnd (call (HasTerraformFiles env) EvHasTerraformFiles) (\<lambda>r.
       case r of
         Inl e \<Rightarrow> FatalError e
       | Inr nowHasTfFiles \<Rightarrow>
           if \<not> hasTfFiles \<and> nowHasTfFiles then initialize env else ret ())))"

text \<open>Lines 263 to 277: the arguments go to terraform.\<close>

definition forward :: "'w env \<Rightarrow> string \<Rightarrow> string list \<Rightarrow> bool \<Rightarrow> ('w, unit) prog" where
  "forward env arg0 args hasTfFiles =
     bnd (call (GetTerraform env) EvGetTerraform) (\<lambda>err.
       case err of
         Some e \<Rightarrow> FatalError e
       | None \<Rightarrow>
     bnd (loadPlugins env) (\<lambda>loadedPlugins.
     bnd (invokeTerraform env loadedPlugins args) (\<lambda>_.
     if \<not> hasTfFiles
     then emits
            [Print [],
             Print (''Consider running '' @ arg0 @ '' add-aws-cluster if you are trying to''),
             Print (''launch a DC/OS cluster. Or '' @ arg0 @ '' -help to see all options'')]
     else ret ())))"

text \<open>
  Lines 187 to 278, with \<open>hasTfFiles\<close> known: the plugin that has the command, the help
  screen, or terraform.
\<close>

definition route :: "'w env \<Rightarrow> string \<Rightarrow> string list \<Rightarrow> bool \<Rightarrow> ('w, unit) prog" where
  "route env arg0 args hasTfFiles =
     (case scanCommand args 1 of
        (cmd_i, cmd_n) \<Rightarrow>
          if cmd_i = 0
          then showHelp env arg0
          else
            (case findPluginCommand (plugins env) cmd_n of
               Some cmd \<Rightarrow> dispatch env cmd args hasTfFiles
             | None \<Rightarrow>
                 if \<not> isTerraformCommand args
                 then showHelp env arg0
                 else forward env arg0 args hasTfFiles))"

text \<open>Lines 164 to 185: the sandbox, the early help screen, the state of the sandbox.\<close>

definition run :: "'w env \<Rightarrow> string \<Rightarrow> string list \<Rightarrow> ('w, unit) prog" where
  "run env arg0 args =
     bnd (call (Getwd env) EvGetwd) (\<lambda>r.
       case r of
         Inl e \<Rightarrow> FatalError e
       | Inr cwd \<Rightarrow>
     bnd (call (OpenSandbox env cwd) (EvOpenSandbox cwd)) (\<lambda>err.
       case err of
         Some e \<Rightarrow> FatalError e
       | None \<Rightarrow>
     if args = [] \<or> Contains (hd args) ''help''
     then showHelp env arg0
     else
     bnd (call (HasTerraformFiles env) EvHasTerraformFiles) (\<lambda>r.
       case r of
         Inl e \<Rightarrow> FatalError e
       | Inr hasTfFiles \<Rightarrow> route env arg0 args hasTfFiles)))"

text \<open>Lines 144 to 160: \<open>wheels-upgrade\<close>. \<open>semver.MustParse\<close> panics on a bad version.\<close>

definition upgrade :: "'w env \<Rightarrow> ('w, unit) prog" where
  "upgrade env =
     (if \<not> semverValid env (buildVersion env)
      then panic ''Invalid Semantic Version''
      else
      bnd (call (GetLatestVersion env) EvGetLatestVersion) (\<lambda>r.
        case r of
          Inl e \<Rightarrow> FatalError e
        | Inr latest \<Rightarrow>
            if newerThan env latest (buildVersion env)
            then bnd (PrintInfo (''Upgrading from '' @ buildVersion env @ '' to '' @ latest)) (\<lambda>_.
                 bnd (call (PerformUpgrade env latest) (EvPerformUpgrade latest)) (\<lambda>err.
                   case err of
                     Some e \<Rightarrow> FatalError e
                   | None \<Rightarrow> ret ()))
            else PrintInfo ''You are running the latest released version''))"

text \<open>
  \<open>main\<close>. The first message of line 136 starts with the four bytes of an emoji;
  \<open>os.Args[2]\<close> of line 137 is out of range when the command stands alone.
\<close>

definition main :: "'w env \<Rightarrow> string \<Rightarrow> string list \<Rightarrow> ('w, unit) prog" where
  "main env arg0 args =
     (case args of
        [] \<Rightarrow> run env arg0 args
      | cmd # rest \<Rightarrow>
          if cmd = ''wheels-complete-upgrade''
          then bnd (PrintInfo ([CHR 0xF0, CHR 0x9F, CHR 0x8D, CHR 0xBA] @
                               '' Upgraded to latest version'')) (\<lambda>_.
               case rest of
                 [] \<Rightarrow> panic ''runtime error: index out of range [2] with length 2''
               | path # _ \<Rightarrow>
                   bnd (call (CompleteUpgrade env path) (\<lambda>_. EvCompleteUpgrade path)) (\<lambda>_.
                   ret ()))
          else if cmd = ''wheels-version''
          then PrintInfo (''You are using terraform-wheels version '' @ buildVersion env)
          else if cmd = ''wheels-upgrade''
          then upgrade env
          else run env arg0 args)"

section \<open>What the theorems speak of\<close>

subsection \<open>The working list of Generate\<close>

text \<open>
  A state of \<open>Generate\<close> is well formed when \<open>lines\<close> is no longer than its capacity, as
  every Go slice is. \<open>cur\<close> is the working list, the elements of \<open>lines\<close>; \<open>bodyOf\<close> is
  \<open>c.BodyLines\<close> as the store has it.
\<close>

definition wellFormed :: "gen_state \<Rightarrow> bool" where
  "wellFormed st = (len (lines st) \<le> cap (mem st) (lines st))"

definition cur :: "gen_state \<Rightarrow> string list" where
  "cur st = view (mem st) (lines st)"

definition bodyOf :: "TerraformFileConfig \<Rightarrow> gen_state \<Rightarrow> string list" where
  "bodyOf c st = view (mem st) (BodyLines c)"

text \<open>
  The merge as a function on lists of lines, with no store: the list without the first line
  that contains a name, the line of a scalar flag, the block of a list flag, one visit, and
  the whole of lines 94 to 165 from a body \<open>B\<close>.
\<close>

definition dropLine :: "string \<Rightarrow> string list \<Rightarrow> string list" where
  "dropLine name L =
     (case findLine L name of None \<Rightarrow> L | Some i \<Rightarrow> take i L @ drop (Suc i) L)"

definition lineOf :: "genv \<Rightarrow> flag \<Rightarrow> string" where
  "lineOf env f = Name f @ '' = '' @ Marshal env (Value f)"

definition listBlock :: "genv \<Rightarrow> string \<times> string list \<Rightarrow> string list" where
  "listBlock env e =
     [[], fst e @ '' = [''] @ map (\<lambda>item. ''  '' @ Marshal env item @ '','') (snd e) @ ['']'']"

definition visitL ::
  "genv \<Rightarrow> TerraformFileConfig \<Rightarrow> flag \<Rightarrow> string list \<times> (string \<times> string list) list \<Rightarrow>
   string list \<times> (string \<times> string list) list" where
  "visitL env c f p =
     (if IsList c (Name f)
      then (dropLine (Name f) (fst p),
            AList.update (Name f)
              ((case map_of (snd p) (Name f) of Some v \<Rightarrow> v | None \<Rightarrow> []) @ [Value f]) (snd p))
      else (dropLine (Name f) (fst p) @ [lineOf env f], snd p))"

definition mergedLines :: "genv \<Rightarrow> TerraformFileConfig \<Rightarrow> string list \<Rightarrow> string list" where
  "mergedLines env c B =
     (case fold (visitL env c) (Flags c) (B, []) of
        (L, lv) \<Rightarrow> L @ concat (map (listBlock env) (ranged env lv)))"

text \<open>
  The invariant under which a step leaves \<open>c.BodyLines\<close> as it is: the body's array is
  allocated and holds the body, and \<open>lines\<close> either views another array or has grown past
  the end of the body.
\<close>

definition keeps :: "TerraformFileConfig \<Rightarrow> gen_state \<Rightarrow> bool" where
  "keeps c st =
     (wellFormed st \<and> ptr (BodyLines c) < brk (mem st) \<and>
      len (BodyLines c) \<le> cap (mem st) (BodyLines c) \<and>
      (ptr (lines st) \<noteq> ptr (BodyLines c) \<or> len (BodyLines c) \<le> len (lines st)))"

subsection \<open>Example inputs of Generate\<close>

text \<open>
  An environment for the examples: \<open>quote\<close> is what \<open>json.Marshal\<close> gives for a string in
  which nothing needs an escape, the formatter accepts every text and returns it, a
  reallocation doubles the capacity, and \<open>range\<close> keeps the order of insertion. The store
  holds one array, at address 0; the configuration views its first \<open>n\<close> cells.
\<close>

definition quote :: "string \<Rightarrow> string" where
  "quote s = CHR 0x22 # s @ [CHR 0x22]"

definition exEnv :: genv where
  "exEnv = \<lparr>Marshal = quote, Format = Inr, growcap = (\<lambda>n. 2 * n), rangeOrder = (\<lambda>ks. ks)\<rparr>"

definition exStore :: "string list \<Rightarrow> store" where
  "exStore a = \<lparr>arrays = (\<lambda>p. if p = 0 then a else []), brk = 1\<rparr>"

definition exCfg :: "flag list \<Rightarrow> nat \<Rightarrow> TerraformFileConfig" where
  "exCfg fs n =
     \<lparr>Flags = fs, ListFlags = [''tags''], MapFlags = [''labels''], PreLines = [''resource {''],
      BodyLines = \<lparr>ptr = 0, len = n\<rparr>, PostLines = [''}''], BodyPrefix = []\<rparr>"

definition exA :: flag where
  "exA = \<lparr>Name = ''a'', Value = ''5''\<rparr>"

definition exB :: flag where
  "exB = \<lparr>Name = ''b'', Value = ''2''\<rparr>"

definition exC :: flag where
  "exC = \<lparr>Name = ''c'', Value = ''7''\<rparr>"

definition exLabels :: "string \<Rightarrow> flag" where
  "exLabels v = \<lparr>Name = ''labels'', Value = v\<rparr>"

subsection \<open>Events by kind\<close>

datatype kind =
    KPrint | KInfo | KFatal | KGetwd | KOpenSandbox | KHasTerraform | KGetTerraform
  | KHasTerraformFiles | KReload | KInvoke | KIsUsed | KBeforeRun | KAfterRun | KHandle
  | KUpgrade

fun kindOf :: "event \<Rightarrow> kind" where
  "kindOf (Print s) = KPrint"
| "kindOf (Info s) = KInfo"
| "kindOf (Fatal e) = KFatal"
| "kindOf (EvGetwd r) = KGetwd"
| "kindOf (EvOpenSandbox cwd r) = KOpenSandbox"
| "kindOf (EvHasTerraform b) = KHasTerraform"
| "kindOf (EvGetTerraform r) = KGetTerraform"
| "kindOf (EvHasTerraformFiles r) = KHasTerraformFiles"
| "kindOf (EvReload r) = KReload"
| "kindOf (EvInvoke args r) = KInvoke"
| "kindOf (EvIsUsed n r) = KIsUsed"
| "kindOf (EvBeforeRun n i r) = KBeforeRun"
| "kindOf (EvAfterRun n e r) = KAfterRun"
| "kindOf (EvHandle n args r) = KHandle"
| "kindOf (EvCompleteUpgrade p) = KUpgrade"
| "kindOf (EvGetLatestVersion r) = KUpgrade"
| "kindOf (EvPerformUpgrade v r) = KUpgrade"

text \<open>The names of the plugins that answered \<open>IsUsed\<close> with true, in order.\<close>

fun usedNames :: "event list \<Rightarrow> string list" where
  "usedNames [] = []"
| "usedNames (EvIsUsed n (Inr True) # es) = n # usedNames es"
| "usedNames (e # es) = usedNames es"

text \<open>The events of pre-hooks and of post-hooks that all returned no error.\<close>

definition befores :: "bool \<Rightarrow> 'w plugin list \<Rightarrow> event list" where
  "befores isInit ps = map (\<lambda>p. EvBeforeRun (GetName p) isInit None) ps"

definition afters :: "err option \<Rightarrow> 'w plugin list \<Rightarrow> event list" where
  "afters err ps = map (\<lambda>p. EvAfterRun (GetName p) err None) ps"

text \<open>What the post-run loop leaves when a post-hook fails: the panic or the fatal error.\<close>

definition finalizeFailure :: "string \<Rightarrow> err option \<Rightarrow> unit res \<times> event list" where
  "finalizeFailure name err =
     (case err of
        None \<Rightarrow> (Panic ''runtime error: invalid memory address or nil pointer dereference'', [])
      | Some e \<Rightarrow> (Exit 1, [Fatal (''Could not finalize '' @ name @ '': '' @ e)]))"

text \<open>The first argument is one of the commands lines 132 to 162 answer themselves.\<close>

definition earlyCommand :: "string list \<Rightarrow> bool" where
  "earlyCommand args =
     (case args of
        [] \<Rightarrow> False
      | cmd # rest \<Rightarrow>
          cmd = ''wheels-complete-upgrade'' \<or> cmd = ''wheels-version'' \<or> cmd = ''wheels-upgrade'')"

definition infoInit :: event where
  "infoInit = Info ''Terraform project created, initializing now''"

subsection \<open>Example collaborators of main\<close>

text \<open>
  A world that is one bit, whether the directory has terraform files. The command of the
  example plugin creates them; the plugin is in use when they are there; its hooks return
  what the example says. Every call to the sandbox succeeds, terraform is installed, and a
  terraform run returns \<open>tfres\<close>.
\<close>

definition exCommand :: "bool command" where
  "exCommand = \<lparr>cmdName = ''add-aws-cluster'', cmdDescription = ''Add a cluster'',
                 Handle = (\<lambda>args w. (None, True))\<rparr>"

definition exPlugin :: "err option \<Rightarrow> err option \<Rightarrow> bool plugin" where
  "exPlugin bres ares =
     \<lparr>GetName = ''dcos-aws'', GetCommands = [exCommand],
      IsUsed = (\<lambda>w. (Inr w, w)),
      BeforeRun = (\<lambda>isInit w. (bres, w)),
      AfterRun = (\<lambda>err w. (ares, w))\<rparr>"

definition exWorld :: "bool plugin list \<Rightarrow> err option \<Rightarrow> bool env" where
  "exWorld ps tfres =
     \<lparr>plugins = ps, RequiredTerraformVersionPrefix = ''0.11.'', buildVersion = ''0.1.0'',
      Getwd = (\<lambda>w. (Inr ''/work'', w)),
      OpenSandbox = (\<lambda>cwd w. (None, w)),
      HasTerraform = (\<lambda>w. (True, w)),
      GetTerraform = (\<lambda>w. (None, w)),
      HasTerraformFiles = (\<lambda>w. (Inr w, w)),
      ReloadTerraformProject = (\<lambda>w. (None, w)),
      Invoke = (\<lambda>args w. (tfres, w)),
      semverValid = (\<lambda>v. True),
      GetLatestVersion = (\<lambda>w. (Inr ''0.1.0'', w)),
      newerThan = (\<lambda>a b. False),
      PerformUpgrade = (\<lambda>v w. (None, w)),
      CompleteUpgrade = (\<lambda>p w. ((), w))\<rparr>"

section \<open>Lemmas on the generator\<close>

lemma inNames_set: "inNames ns name = (name \<in> set ns)"
  by (induction ns) auto

lemma findLine_None: "(findLine L name = None) = (\<forall>l\<in>set L. \<not> Contains l name)"
  by (induction L) auto

lemma findLine_Some:
  "findLine L name = Some i \<Longrightarrow>
   i < length L \<and> Contains (L ! i) name \<and> (\<forall>j<i. \<not> Contains (L ! j) name)"
proof (induction L arbitrary: i)
  case Nil
  then show ?case by simp
next
  case (Cons l L)
  show ?case
  proof (cases "Contains l name")
    case True
    with Cons.prems show ?thesis by simp
  next
    case False
    with Cons.prems obtain k where k: "findLine L name = Some k" "i = Suc k"
      by auto
    from Cons.IH [OF k(1)] False k(2) show ?thesis
      by (auto simp: less_Suc_eq_0_disj)
  qed
qed

lemma removeAt_eq:
  assumes "len s \<le> length (arrays h (ptr s))" "i < len s"
  shows "removeAt h s i =
     (h\<lparr>arrays := (arrays h)(ptr s :=
          take i (arrays h (ptr s)) @ drop (Suc i) (take (len s) (arrays h (ptr s))) @
          [] # drop (len s) (arrays h (ptr s)))\<rparr>,
      s\<lparr>len := len s - 1\<rparr>)"
proof -
  define a where "a = arrays h (ptr s)"
  define n where "n = len s"
  define src where "src = drop (Suc i) (take n a)"
  from assms have n: "n \<le> length a" "i < n" by (simp_all add: a_def n_def)
  then have lsrc: "length src = n - Suc i" by (simp add: src_def)
  then have k: "min (n - i) (length src) = n - Suc i" by simp
  have pre: "length (take i a @ src) = n - 1" using n lsrc by simp
  have "drop (n - 1) a = a ! (n - 1) # drop n a"
    using n Cons_nth_drop_Suc [of "n - 1" a] by simp
  then have a1: "copy_cells a i (n - i) src = (take i a @ src) @ a ! (n - 1) # drop n a"
    using n k lsrc by (simp add: copy_cells_def Let_def)
  have "(copy_cells a i (n - i) src)[n - 1 := []] = (take i a @ src) @ [] # drop n a"
    unfolding a1 using pre list_update_length [of "take i a @ src" "a ! (n - 1)" "drop n a" "[]"]
    by simp
  then show ?thesis
    by (simp add: removeAt_def Let_def a_def [symmetric] n_def [symmetric] src_def [symmetric])
qed

lemma view_removeAt:
  assumes "len s \<le> length (arrays h (ptr s))" "i < len s"
    and "removeAt h s i = (h', s')"
  shows "view h' s' = take i (view h s) @ drop (Suc i) (view h s)"
proof -
  define a where "a = arrays h (ptr s)"
  define P where "P = take i a @ drop (Suc i) (take (len s) a)"
  from assms have lp: "length P = len s - 1"
    by (simp add: P_def a_def)
  have "view h' s' = take (len s - 1) (P @ [] # drop (len s) a)"
    using assms by (auto simp add: removeAt_eq view_def P_def a_def)
  also have "\<dots> = P"
    using lp by simp
  also have "\<dots> = take i (view h s) @ drop (Suc i) (view h s)"
    using assms by (simp add: P_def view_def a_def min_def)
  finally show ?thesis .
qed

lemma cap_removeAt:
  assumes "len s \<le> length (arrays h (ptr s))" "i < len s"
    and "removeAt h s i = (h', s')"
  shows "len s' \<le> cap h' s'"
  using assms by (auto simp add: removeAt_eq cap_def)

lemma append1_spare:
  "len s < length (arrays h (ptr s)) \<Longrightarrow>
   append1 g h s x =
     (h\<lparr>arrays := (arrays h)(ptr s := (arrays h (ptr s))[len s := x])\<rparr>, s\<lparr>len := Suc (len s)\<rparr>)"
  by (simp add: append1_def Let_def)

lemma append1_full:
  "\<not> len s < length (arrays h (ptr s)) \<Longrightarrow>
   append1 g h s x =
     (h\<lparr>arrays := (arrays h)(brk h := take (len s) (arrays h (ptr s)) @ [x] @
          replicate (max (Suc (len s)) (g (length (arrays h (ptr s)))) - Suc (len s)) []),
        brk := Suc (brk h)\<rparr>,
      \<lparr>ptr = brk h, len = Suc (len s)\<rparr>)"
  by (simp add: append1_def Let_def)

lemma view_append1:
  assumes "len s \<le> length (arrays h (ptr s))" and "append1 g h s x = (h', s')"
  shows "view h' s' = view h s @ [x]"
proof (cases "len s < length (arrays h (ptr s))")
  case True
  with assms(2) show ?thesis
    by (auto simp add: append1_spare view_def take_Suc_conv_app_nth)
next
  case False
  with assms have "len s = length (arrays h (ptr s))" by simp
  with False assms(2) show ?thesis
    by (auto simp add: append1_full view_def)
qed

lemma cap_append1:
  assumes "len s \<le> length (arrays h (ptr s))" and "append1 g h s x = (h', s')"
  shows "len s' \<le> cap h' s'"
proof (cases "len s < length (arrays h (ptr s))")
  case True
  with assms(2) show ?thesis
    by (auto simp add: append1_spare cap_def)
next
  case False
  with assms have "len s = length (arrays h (ptr s))" by simp
  with False assms(2) show ?thesis
    by (auto simp add: append1_full cap_def)
qed

lemma cur_removeLine:
  assumes "wellFormed st"
  shows "cur (removeLine name st) = dropLine name (cur st)"
proof (cases "findLine (cur st) name")
  case None
  then show ?thesis by (simp add: removeLine_def dropLine_def cur_def)
next
  case (Some i)
  then have "i < length (cur st)" by (simp add: findLine_Some)
  with assms have i: "len (lines st) \<le> length (arrays (mem st) (ptr (lines st)))" "i < len (lines st)"
    by (simp_all add: wellFormed_def cap_def cur_def view_def)
  from view_removeAt [OF i] Some show ?thesis
    by (auto simp add: removeLine_def dropLine_def cur_def split: prod.splits)
qed

lemma wf_removeLine:
  assumes "wellFormed st"
  shows "wellFormed (removeLine name st)"
proof (cases "findLine (cur st) name")
  case None
  with assms show ?thesis by (simp add: removeLine_def cur_def)
next
  case (Some i)
  then have "i < length (cur st)" by (simp add: findLine_Some)
  with assms have i: "len (lines st) \<le> length (arrays (mem st) (ptr (lines st)))" "i < len (lines st)"
    by (simp_all add: wellFormed_def cap_def cur_def view_def)
  from cap_removeAt [OF i] Some show ?thesis
    by (auto simp add: removeLine_def wellFormed_def cur_def split: prod.splits)
qed

lemma removeLine_fields:
  "errs (removeLine name st) = errs st"
  "listValues (removeLine name st) = listValues st"
  "mapValues (removeLine name st) = mapValues st"
  by (simp_all add: removeLine_def split: option.splits prod.splits)

lemma cur_appendLine:
  assumes "wellFormed st"
  shows "cur (appendLine env x st) = cur st @ [x]"
  using assms view_append1 [of "lines st" "mem st" "growcap env" x]
  by (auto simp add: appendLine_def wellFormed_def cap_def cur_def split: prod.splits)

lemma wf_appendLine:
  assumes "wellFormed st"
  shows "wellFormed (appendLine env x st)"
  using assms cap_append1 [of "lines st" "mem st" "growcap env" x]
  by (auto simp add: appendLine_def wellFormed_def cap_def split: prod.splits)

lemma appendLine_fields:
  "errs (appendLine env x st) = errs st"
  "listValues (appendLine env x st) = listValues st"
  "mapValues (appendLine env x st) = mapValues st"
  by (simp_all add: appendLine_def split: prod.splits)

lemma visit_list:
  "IsList c (Name f) \<Longrightarrow>
   visit env c f st =
     (removeLine (Name f) st)\<lparr>listValues :=
        AList.update (Name f)
          ((case map_of (listValues st) (Name f) of Some v \<Rightarrow> v | None \<Rightarrow> []) @ [Value f])
          (listValues st)\<rparr>"
  by (simp add: visit_def Let_def removeLine_fields)

lemma visit_scalar:
  "\<not> IsList c (Name f) \<Longrightarrow>
   visit env c f st = appendLine env (lineOf env f) (removeLine (Name f) st)"
  by (simp add: visit_def Let_def lineOf_def)

lemma wf_update [simp]: "wellFormed (st\<lparr>listValues := lv\<rparr>) = wellFormed st"
  by (simp add: wellFormed_def)

lemma cur_update [simp]: "cur (st\<lparr>listValues := lv\<rparr>) = cur st"
  by (simp add: cur_def)

lemma wf_visit: "wellFormed st \<Longrightarrow> wellFormed (visit env c f st)"
  by (cases "IsList c (Name f)") (simp_all add: visit_list visit_scalar wf_removeLine wf_appendLine)

lemma visit_abs:
  "wellFormed st \<Longrightarrow>
   (cur (visit env c f st), listValues (visit env c f st)) = visitL env c f (cur st, listValues st)"
  by (cases "IsList c (Name f)")
     (simp_all add: visit_list visit_scalar visitL_def cur_removeLine cur_appendLine wf_removeLine
        appendLine_fields removeLine_fields)

lemma visit_maps: "mapValues (visit env c f st) = mapValues st" "errs (visit env c f st) = errs st"
  by (cases "IsList c (Name f)"; simp add: visit_list visit_scalar appendLine_fields removeLine_fields)+

lemma fold_visit:
  "wellFormed st \<Longrightarrow>
   wellFormed (fold (visit env c) fs st) \<and>
   (cur (fold (visit env c) fs st), listValues (fold (visit env c) fs st)) =
     fold (visitL env c) fs (cur st, listValues st) \<and>
   mapValues (fold (visit env c) fs st) = mapValues st \<and>
   errs (fold (visit env c) fs st) = errs st"
proof (induction fs arbitrary: st)
  case Nil
  then show ?case by simp
next
  case (Cons f fs)
  from Cons.IH [OF wf_visit [OF Cons.prems]] visit_abs [OF Cons.prems, of env c f]
  show ?case by (simp add: visit_maps)
qed

lemma fold_appendLine:
  "wellFormed st \<Longrightarrow>
   wellFormed (fold (appendLine env) xs st) \<and> cur (fold (appendLine env) xs st) = cur st @ xs \<and>
   mapValues (fold (appendLine env) xs st) = mapValues st \<and>
   listValues (fold (appendLine env) xs st) = listValues st \<and>
   errs (fold (appendLine env) xs st) = errs st"
proof (induction xs arbitrary: st)
  case Nil
  then show ?case by simp
next
  case (Cons x xs)
  from Cons.IH [OF wf_appendLine [OF Cons.prems]] show ?case
    by (simp add: cur_appendLine [OF Cons.prems] appendLine_fields)
qed

lemma expandList_abs:
  "wellFormed st \<Longrightarrow>
   wellFormed (expandList env e st) \<and> cur (expandList env e st) = cur st @ listBlock env e \<and>
   mapValues (expandList env e st) = mapValues st \<and> errs (expandList env e st) = errs st"
  using fold_appendLine [of st env "listBlock env e"]
  by (simp add: expandList_def listBlock_def)

lemma fold_expandList:
  "wellFormed st \<Longrightarrow>
   wellFormed (fold (expandList env) es st) \<and>
   cur (fold (expandList env) es st) = cur st @ concat (map (listBlock env) es) \<and>
   mapValues (fold (expandList env) es st) = mapValues st \<and>
   errs (fold (expandList env) es st) = errs st"
proof (induction es arbitrary: st)
  case Nil
  then show ?case by simp
next
  case (Cons e es)
  from expandList_abs [OF Cons.prems, of env e] Cons.IH [of "expandList env e st"]
  show ?case by simp
qed

lemma ranged_Nil: "ranged env ([] :: (string \<times> 'v) list) = []"
  by (simp add: ranged_def Let_def)

lemma expand_abs:
  assumes "wellFormed st" "mapValues st = []"
  shows "wellFormed (expand env st)"
    and "cur (expand env st) = cur st @ concat (map (listBlock env) (ranged env (listValues st)))"
    and "errs (expand env st) = errs st"
  using fold_expandList [OF assms(1), of env "ranged env (listValues st)"] assms(2)
  by (simp_all add: expand_def Let_def ranged_Nil)

lemma wf_start: "wellFormed (start c h) = (len (BodyLines c) \<le> cap h (BodyLines c))"
  by (simp add: wellFormed_def start_def)

lemma merge_abs:
  assumes "len (BodyLines c) \<le> cap h (BodyLines c)"
  shows "cur (mergeFlags env c h) = mergedLines env c (view h (BodyLines c))"
    and "wellFormed (mergeFlags env c h)" and "errs (mergeFlags env c h) = []"
proof -
  from assms have w: "wellFormed (start c h)" by (simp add: wf_start)
  note fv = fold_visit [OF w, of env c "Flags c"]
  from fv have m: "mapValues (fold (visit env c) (Flags c) (start c h)) = []"
    by (simp add: start_def)
  from fv have w1: "wellFormed (fold (visit env c) (Flags c) (start c h))" by simp
  from fv have ab: "fold (visitL env c) (Flags c) (view h (BodyLines c), []) =
      (cur (fold (visit env c) (Flags c) (start c h)), listValues (fold (visit env c) (Flags c) (start c h)))"
    by (simp add: start_def cur_def)
  from expand_abs [OF w1 m, of env]
  show "cur (mergeFlags env c h) = mergedLines env c (view h (BodyLines c))"
    and "wellFormed (mergeFlags env c h)"
    by (simp_all add: mergeFlags_def mergedLines_def ab)
  from expand_abs(3) [OF w1 m, of env] fv
  show "errs (mergeFlags env c h) = []"
    by (simp add: mergeFlags_def start_def)
qed

lemma keeps_appendLine:
  assumes "keeps c st"
  shows "keeps c (appendLine env x st)" and "bodyOf c (appendLine env x st) = bodyOf c st"
proof -
  from assms have w: "wellFormed st" by (simp add: keeps_def)
  have k: "len (lines st) \<le> length (arrays (mem st) (ptr (lines st)))"
    using w by (simp add: wellFormed_def cap_def)
  have "keeps c (appendLine env x st) \<and> bodyOf c (appendLine env x st) = bodyOf c st"
  proof (cases "len (lines st) < length (arrays (mem st) (ptr (lines st)))")
    case True
    with assms wf_appendLine [OF w, of env x] show ?thesis
      by (auto simp add: keeps_def appendLine_def append1_spare bodyOf_def view_def cap_def)
  next
    case False
    with assms wf_appendLine [OF w, of env x] show ?thesis
      by (auto simp add: keeps_def appendLine_def append1_full bodyOf_def view_def cap_def)
  qed
  then show "keeps c (appendLine env x st)" and "bodyOf c (appendLine env x st) = bodyOf c st"
    by simp_all
qed

lemma keeps_fold_appendLine:
  "keeps c st \<Longrightarrow>
   keeps c (fold (appendLine env) xs st) \<and> bodyOf c (fold (appendLine env) xs st) = bodyOf c st"
proof (induction xs arbitrary: st)
  case Nil
  then show ?case by simp
next
  case (Cons x xs)
  from Cons.IH [OF keeps_appendLine(1) [OF Cons.prems]] keeps_appendLine(2) [OF Cons.prems]
  show ?case by simp
qed

lemma keeps_removeLine:
  assumes "keeps c st" and "\<forall>l\<in>set (bodyOf c st). \<not> Contains l name"
  shows "keeps c (removeLine name st)" and "bodyOf c (removeLine name st) = bodyOf c st"
proof -
  from assms have w: "wellFormed st" by (simp add: keeps_def)
  have "keeps c (removeLine name st) \<and> bodyOf c (removeLine name st) = bodyOf c st"
  proof (cases "findLine (cur st) name")
    case None
    with assms show ?thesis by (simp add: removeLine_def cur_def)
  next
    case (Some i)
    note fs = findLine_Some [OF Some]
    with w have i: "len (lines st) \<le> length (arrays (mem st) (ptr (lines st)))" "i < len (lines st)"
      by (simp_all add: wellFormed_def cap_def cur_def view_def)
    show ?thesis
    proof (cases "ptr (lines st) = ptr (BodyLines c)")
      case False
      with assms Some wf_removeLine [OF w, of name] i show ?thesis
        by (auto simp add: keeps_def removeLine_def cur_def removeAt_eq bodyOf_def view_def cap_def)
    next
      case True
      with assms have n: "len (BodyLines c) \<le> len (lines st)" by (simp add: keeps_def)
      have ni: "len (BodyLines c) \<le> i"
      proof (rule ccontr)
        assume "\<not> len (BodyLines c) \<le> i"
        then have lt: "i < len (BodyLines c)" by simp
        with n i True have "cur st ! i = bodyOf c st ! i" "i < length (bodyOf c st)"
          by (simp_all add: cur_def bodyOf_def view_def)
        with assms(2) fs show False by (metis nth_mem)
      qed
      with assms Some wf_removeLine [OF w, of name] i True show ?thesis
        by (auto simp add: keeps_def removeLine_def cur_def removeAt_eq bodyOf_def view_def cap_def)
    qed
  qed
  then show "keeps c (removeLine name st)" and "bodyOf c (removeLine name st) = bodyOf c st"
    by simp_all
qed

lemma keeps_upd [simp]: "keeps c (st\<lparr>listValues := lv\<rparr>) = keeps c st"
  by (simp add: keeps_def)

lemma bodyOf_upd [simp]: "bodyOf c (st\<lparr>listValues := lv\<rparr>) = bodyOf c st"
  by (simp add: bodyOf_def)

lemma keeps_visit:
  assumes "keeps c st" and "\<forall>l\<in>set (bodyOf c st). \<not> Contains l (Name f)"
  shows "keeps c (visit env c f st) \<and> bodyOf c (visit env c f st) = bodyOf c st"
proof (cases "IsList c (Name f)")
  case True
  with keeps_removeLine [OF assms] show ?thesis by (simp add: visit_list)
next
  case False
  with keeps_removeLine [OF assms] keeps_appendLine [of c "removeLine (Name f) st" env "lineOf env f"]
  show ?thesis by (simp add: visit_scalar)
qed

lemma keeps_fold_visit:
  "keeps c st \<Longrightarrow> \<forall>f\<in>set fs. \<forall>l\<in>set (bodyOf c st). \<not> Contains l (Name f) \<Longrightarrow>
   keeps c (fold (visit env c) fs st) \<and> bodyOf c (fold (visit env c) fs st) = bodyOf c st"
proof (induction fs arbitrary: st)
  case Nil
  then show ?case by simp
next
  case (Cons f fs)
  from Cons.prems have "keeps c (visit env c f st) \<and> bodyOf c (visit env c f st) = bodyOf c st"
    by (intro keeps_visit) simp_all
  with Cons.IH [of "visit env c f st"] Cons.prems(2) show ?case by simp
qed

lemma keeps_expandList:
  "keeps c st \<Longrightarrow> keeps c (expandList env e st) \<and> bodyOf c (expandList env e st) = bodyOf c st"
  unfolding expandList_def by (rule keeps_fold_appendLine)

lemma keeps_expandMap:
  "keeps c st \<Longrightarrow> keeps c (expandMap env e st) \<and> bodyOf c (expandMap env e st) = bodyOf c st"
  unfolding expandMap_def by (rule keeps_fold_appendLine)

lemma keeps_fold_expandList:
  "keeps c st \<Longrightarrow>
   keeps c (fold (expandList env) es st) \<and> bodyOf c (fold (expandList env) es st) = bodyOf c st"
proof (induction es arbitrary: st)
  case Nil
  then show ?case by simp
next
  case (Cons e es)
  from Cons.IH [of "expandList env e st"] keeps_expandList [OF Cons.prems, of env e]
  show ?case by simp
qed

lemma keeps_fold_expandMap:
  "keeps c st \<Longrightarrow>
   keeps c (fold (expandMap env) es st) \<and> bodyOf c (fold (expandMap env) es st) = bodyOf c st"
proof (induction es arbitrary: st)
  case Nil
  then show ?case by simp
next
  case (Cons e es)
  from Cons.IH [of "expandMap env e st"] keeps_expandMap [OF Cons.prems, of env e]
  show ?case by simp
qed

lemma keeps_expand:
  assumes "keeps c st"
  shows "keeps c (expand env st) \<and> bodyOf c (expand env st) = bodyOf c st"
proof -
  define st2 where "st2 = fold (expandList env) (ranged env (listValues st)) st"
  from keeps_fold_expandList [OF assms, of env "ranged env (listValues st)"]
  have k2: "keeps c st2" and b2: "bodyOf c st2 = bodyOf c st" by (simp_all add: st2_def)
  from keeps_fold_expandMap [OF k2, of env "ranged env (mapValues st2)"] b2
  show ?thesis by (simp add: expand_def Let_def st2_def)
qed

lemma keeps_start:
  "len (BodyLines c) \<le> cap h (BodyLines c) \<Longrightarrow> ptr (BodyLines c) < brk h \<Longrightarrow> keeps c (start c h)"
  by (simp add: keeps_def wellFormed_def start_def)

lemma body_unchanged:
  assumes "len (BodyLines c) \<le> cap h (BodyLines c)" "ptr (BodyLines c) < brk h"
    and "\<forall>f\<in>set (Flags c). \<forall>l\<in>set (view h (BodyLines c)). \<not> Contains l (Name f)"
  shows "bodyOf c (mergeFlags env c h) = view h (BodyLines c)"
proof -
  have b0: "bodyOf c (start c h) = view h (BodyLines c)" by (simp add: bodyOf_def start_def)
  from keeps_fold_visit [OF keeps_start [OF assms(1,2)], of "Flags c" env] assms(3) b0
  have "keeps c (fold (visit env c) (Flags c) (start c h))"
    and "bodyOf c (fold (visit env c) (Flags c) (start c h)) = view h (BodyLines c)"
    by simp_all
  with keeps_expand [of c "fold (visit env c) (Flags c) (start c h)" env]
  show ?thesis by (simp add: mergeFlags_def)
qed

lemma take_Suc_past: "length P = m \<Longrightarrow> take (Suc m) (P @ x # D) = P @ [x]"
  by simp

lemma removeLine_start:
  assumes "len (BodyLines c) \<le> cap h (BodyLines c)"
    and "findLine (view h (BodyLines c)) name = Some i"
  shows "bodyOf c (removeLine name (start c h)) =
           take i (view h (BodyLines c)) @ drop (Suc i) (view h (BodyLines c)) @ [[]]"
    and "lines (removeLine name (start c h)) = (BodyLines c)\<lparr>len := len (BodyLines c) - 1\<rparr>"
    and "brk (mem (removeLine name (start c h))) = brk h"
    and "cap (mem (removeLine name (start c h))) (BodyLines c) = cap h (BodyLines c)"
proof -
  define a where "a = arrays h (ptr (BodyLines c))"
  define n where "n = len (BodyLines c)"
  from findLine_Some [OF assms(2)] assms(1)
  have i: "len (BodyLines c) \<le> length (arrays h (ptr (BodyLines c)))" "i < len (BodyLines c)"
    by (simp_all add: cap_def view_def)
  then have lp: "length (take i a @ drop (Suc i) (take n a)) = n - 1"
    by (simp add: a_def n_def)
  from i have n1: "n = Suc (n - 1)" by (simp add: n_def)
  have "take n ((take i a @ drop (Suc i) (take n a)) @ [] # drop n a) =
        (take i a @ drop (Suc i) (take n a)) @ [[]]"
    using take_Suc_past [OF lp] n1 by simp
  with i assms(2) show "bodyOf c (removeLine name (start c h)) =
           take i (view h (BodyLines c)) @ drop (Suc i) (view h (BodyLines c)) @ [[]]"
    by (simp add: removeLine_def start_def removeAt_eq bodyOf_def view_def a_def n_def min_def)
  from i assms(2) show "lines (removeLine name (start c h)) = (BodyLines c)\<lparr>len := len (BodyLines c) - 1\<rparr>"
    and "brk (mem (removeLine name (start c h))) = brk h"
    and "cap (mem (removeLine name (start c h))) (BodyLines c) = cap h (BodyLines c)"
    by (simp_all add: removeLine_def start_def removeAt_eq cap_def)
qed

lemma appendLine_last:
  assumes "ptr (lines st) = ptr (BodyLines c)" "Suc (len (lines st)) = len (BodyLines c)"
    and "len (BodyLines c) \<le> cap (mem st) (BodyLines c)" "ptr (BodyLines c) < brk (mem st)"
  shows "bodyOf c (appendLine env x st) = butlast (bodyOf c st) @ [x]"
    and "keeps c (appendLine env x st)"
proof -
  from assms have sp: "len (lines st) < length (arrays (mem st) (ptr (lines st)))"
    by (simp add: cap_def)
  define a where "a = arrays (mem st) (ptr (BodyLines c))"
  define m where "m = len (lines st)"
  from sp assms(1) have m: "m < length a" by (simp add: a_def m_def)
  then have "take (Suc m) (a[m := x]) = take m a @ [x]"
    by (simp add: take_Suc_conv_app_nth)
  moreover from m have "butlast (take (Suc m) a) = take m a"
    by (simp add: butlast_take)
  ultimately show "bodyOf c (appendLine env x st) = butlast (bodyOf c st) @ [x]"
    using sp assms(1) assms(2) [symmetric]
    by (simp add: appendLine_def append1_spare bodyOf_def view_def a_def m_def
        del: butlast_take take_Suc_conv_app_nth)
  from assms sp show "keeps c (appendLine env x st)"
    by (simp add: appendLine_def append1_spare keeps_def wellFormed_def cap_def)
qed

lemma concat_pick:
  "distinct ord \<Longrightarrow>
   concat (map (\<lambda>k'. case map_of [(k, v)] k' of None \<Rightarrow> [] | Some w \<Rightarrow> [(k', w)]) ord) =
     (if k \<in> set ord then [(k, v)] else [])"
  by (induction ord) auto

lemma ranged_single: "ranged env [(k, v)] = [(k, v)]"
  using concat_pick [of "remdups (rangeOrder env [k])" k v]
  by (simp add: ranged_def Let_def)

lemma compose_eq:
  assumes "len (BodyLines c) \<le> cap h (BodyLines c)"
  shows "compose env c h =
     (mem (mergeFlags env c h),
      Join (PreLines c @ bodyOf c (mergeFlags env c h) @ mergedLines env c (view h (BodyLines c)) @
            PostLines c) [CHR 0x0A])"
  using merge_abs(1) [OF assms, of env]
  by (simp add: compose_def Let_def cur_def bodyOf_def)

lemma bodyOf_upd_lines [simp]: "bodyOf c (st\<lparr>lines := s\<rparr>) = bodyOf c st"
  by (simp add: bodyOf_def)

lemma visit_first:
  assumes "len (BodyLines c) \<le> cap h (BodyLines c)" and "ptr (BodyLines c) < brk h"
    and "findLine (view h (BodyLines c)) (Name f) = Some i"
  shows "bodyOf c (visit env c f (start c h)) =
           take i (view h (BodyLines c)) @ drop (Suc i) (view h (BodyLines c)) @
           [if IsList c (Name f) then [] else lineOf env f]"
    and "\<not> IsList c (Name f) \<Longrightarrow> keeps c (visit env c f (start c h))"
    and "IsList c (Name f) \<Longrightarrow> keeps c (appendLine env x (visit env c f (start c h)))"
    and "IsList c (Name f) \<Longrightarrow>
           bodyOf c (appendLine env [] (visit env c f (start c h))) =
           bodyOf c (visit env c f (start c h))"
proof -
  define st where "st = removeLine (Name f) (start c h)"
  define P where "P = take i (view h (BodyLines c)) @ drop (Suc i) (view h (BodyLines c))"
  note rs = removeLine_start [OF assms(1,3), folded st_def P_def]
  from findLine_Some [OF assms(3)] assms(1) have n: "0 < len (BodyLines c)"
    by (simp add: view_def cap_def)
  have b: "bodyOf c st = P @ [[]]" using rs(1) by (simp add: P_def)
  have a1: "ptr (lines st) = ptr (BodyLines c)" using rs(2) by simp
  have a2: "Suc (len (lines st)) = len (BodyLines c)" using rs(2) n by simp
  have a3: "len (BodyLines c) \<le> cap (mem st) (BodyLines c)" using rs(4) assms(1) by simp
  have a4: "ptr (BodyLines c) < brk (mem st)" using rs(3) assms(2) by simp
  note al = appendLine_last [OF a1 a2 a3 a4]
  show "bodyOf c (visit env c f (start c h)) =
           take i (view h (BodyLines c)) @ drop (Suc i) (view h (BodyLines c)) @
           [if IsList c (Name f) then [] else lineOf env f]"
  proof (cases "IsList c (Name f)")
    case True
    with b show ?thesis by (simp add: visit_list st_def [symmetric] P_def)
  next
    case False
    have "bodyOf c (appendLine env (lineOf env f) st) = P @ [lineOf env f]"
      using b al(1) [of env "lineOf env f"] by simp
    with False show ?thesis by (simp add: visit_scalar st_def [symmetric] P_def)
  qed
  show "\<not> IsList c (Name f) \<Longrightarrow> keeps c (visit env c f (start c h))"
    using al(2) [of env "lineOf env f"] by (simp add: visit_scalar st_def [symmetric])
  define st1 where "st1 = visit env c f (start c h)"
  assume l: "IsList c (Name f)"
  then have e: "mem st1 = mem st" "lines st1 = lines st"
    by (simp_all add: st1_def visit_list st_def)
  have b1: "ptr (lines st1) = ptr (BodyLines c)" using a1 e by simp
  have b2: "Suc (len (lines st1)) = len (BodyLines c)" using a2 e by simp
  have b3: "len (BodyLines c) \<le> cap (mem st1) (BodyLines c)" using a3 e by simp
  have b4: "ptr (BodyLines c) < brk (mem st1)" using a4 e by simp
  note bl = appendLine_last [OF b1 b2 b3 b4]
  show "keeps c (appendLine env x (visit env c f (start c h)))"
    using bl(2) [of env x] by (simp add: st1_def)
  have "bodyOf c st1 = P @ [[]]" using b e by (simp add: bodyOf_def)
  then have "bodyOf c (appendLine env [] st1) = bodyOf c st1"
    using bl(1) [of env "[]"] by simp
  then show "bodyOf c (appendLine env [] (visit env c f (start c h))) =
           bodyOf c (visit env c f (start c h))"
    by (simp add: st1_def)
qed

lemma merge_single:
  assumes "len (BodyLines c) \<le> cap h (BodyLines c)" and "ptr (BodyLines c) < brk h"
    and "findLine (view h (BodyLines c)) (Name f) = Some i" and "Flags c = [f]"
  shows "bodyOf c (mergeFlags env c h) = bodyOf c (visit env c f (start c h))"
    and "keeps c (mergeFlags env c h)"
proof -
  define st1 where "st1 = visit env c f (start c h)"
  have m: "mergeFlags env c h = expand env st1" by (simp add: mergeFlags_def assms(4) st1_def)
  have "keeps c (mergeFlags env c h) \<and> bodyOf c (mergeFlags env c h) = bodyOf c st1"
  proof (cases "IsList c (Name f)")
    case False
    from visit_first(2) [OF assms(1-3) False, of env] keeps_expand [of c st1 env]
    show ?thesis by (simp add: m st1_def)
  next
    case True
    define e where "e = (Name f, [Value f])"
    define rest where "rest = [fst e @ '' = [''] @
        map (\<lambda>item. ''  '' @ Marshal env item @ '','') (snd e) @ ['']'']"
    have lv: "listValues st1 = [e]"
      using True by (simp add: st1_def visit_list removeLine_fields start_def e_def)
    define st2 where "st2 = fold (appendLine env) rest (appendLine env [] st1)"
    have x: "fold (expandList env) (ranged env (listValues st1)) st1 = st2"
      by (simp add: lv e_def ranged_single expandList_def st2_def rest_def)
    from visit_first(3,4) [OF assms(1-3) True, of env]
    have k: "keeps c (appendLine env [] st1)"
      and b: "bodyOf c (appendLine env [] st1) = bodyOf c st1"
      by (simp_all add: st1_def)
    from keeps_fold_appendLine [OF k, of env rest] b
    have k2: "keeps c st2" and b2: "bodyOf c st2 = bodyOf c st1"
      by (simp_all add: st2_def)
    from keeps_fold_expandMap [OF k2, of env "ranged env (mapValues st2)"] b2
    show ?thesis by (simp add: m expand_def Let_def x)
  qed
  then show "bodyOf c (mergeFlags env c h) = bodyOf c (visit env c f (start c h))"
    and "keeps c (mergeFlags env c h)"
    by (simp_all add: st1_def)
qed

section \<open>The claims on the generator\<close>

text \<open>
  Claim C1. Take any invocation of \<open>Generate\<close> and any flag \<open>f\<close> it visits that is
  named neither in \<open>ListFlags\<close> nor in \<open>MapFlags\<close>; let \<open>L\<close> be the working list when
  \<open>f\<close> is visited and \<open>L'\<close> the list after the visit. If no line of \<open>L\<close> contains the
  name of \<open>f\<close>, then \<open>L'\<close> is \<open>L\<close> with the one line \<open>name = json(value)\<close> at its end.
  If some line does, \<open>L'\<close> is \<open>L\<close> without the first such line, the other lines in
  their order, and the new line at the end. The list flags collected so far stay as they
  are, and the visits of the later flags go on from there.
\<close>

theorem scalar_flag_line:
  assumes "len (BodyLines c) \<le> cap h (BodyLines c)"
    and "Flags c = fs @ f # gs"
    and "Name f \<notin> set (ListFlags c)" and "Name f \<notin> set (MapFlags c)"
  shows "let before = fold (visit env c) fs (start c h);
             after = visit env c f before;
             L = view (mem before) (lines before);
             L' = view (mem after) (lines after);
             new = Name f @ '' = '' @ Marshal env (Value f)
         in ((\<forall>l\<in>set L. \<not> Contains l (Name f)) \<longrightarrow> L' = L @ [new]) \<and>
            ((\<exists>l\<in>set L. Contains l (Name f)) \<longrightarrow>
               (\<exists>i<length L. Contains (L ! i) (Name f) \<and> (\<forall>j<i. \<not> Contains (L ! j) (Name f)) \<and>
                  L' = take i L @ drop (Suc i) L @ [new])) \<and>
            listValues after = listValues before \<and>
            fold (visit env c) (Flags c) (start c h) = fold (visit env c) gs after"
proof -
  define before where "before = fold (visit env c) fs (start c h)"
  define L where "L = cur before"
  from assms(1) have "wellFormed (start c h)" by (simp add: wf_start)
  then have w: "wellFormed before" using fold_visit [of "start c h" env c fs] by (simp add: before_def)
  from assms(3) have nl: "\<not> IsList c (Name f)" by (simp add: IsList_def inNames_set)
  from visit_abs [OF w, of env c f] nl
  have L': "cur (visit env c f before) = dropLine (Name f) L @ [lineOf env f]"
    and lv: "listValues (visit env c f before) = listValues before"
    by (simp_all add: visitL_def L_def)
  have a: "(\<forall>l\<in>set L. \<not> Contains l (Name f)) \<longrightarrow> cur (visit env c f before) = L @ [lineOf env f]"
    using L' by (simp add: dropLine_def findLine_None [symmetric])
  have b: "(\<exists>l\<in>set L. Contains l (Name f)) \<longrightarrow>
       (\<exists>i<length L. Contains (L ! i) (Name f) \<and> (\<forall>j<i. \<not> Contains (L ! j) (Name f)) \<and>
          cur (visit env c f before) = take i L @ drop (Suc i) L @ [lineOf env f])"
  proof
    assume "\<exists>l\<in>set L. Contains l (Name f)"
    then have "findLine L (Name f) \<noteq> None" by (simp add: findLine_None)
    then obtain i where i: "findLine L (Name f) = Some i" by auto
    from findLine_Some [OF i] L' i
    show "\<exists>i<length L. Contains (L ! i) (Name f) \<and> (\<forall>j<i. \<not> Contains (L ! j) (Name f)) \<and>
          cur (visit env c f before) = take i L @ drop (Suc i) L @ [lineOf env f]"
      by (auto simp add: dropLine_def)
  qed
  have c: "fold (visit env c) (Flags c) (start c h) = fold (visit env c) gs (visit env c f before)"
    by (simp add: assms(2) before_def)
  from a b c lv show ?thesis
    by (simp add: Let_def before_def [symmetric] L_def cur_def lineOf_def)
qed

text \<open>
  The theorem at a body of two lines and the flag \<open>a\<close> with value 5.
\<close>

theorem scalar_flag_line_witness:
  "view (mem (visit exEnv (exCfg [exA] 2) exA (start (exCfg [exA] 2) (exStore [''a = 1'', ''b = 2'']))))
        (lines (visit exEnv (exCfg [exA] 2) exA (start (exCfg [exA] 2) (exStore [''a = 1'', ''b = 2'']))))
   = [''b = 2'', ''a = '' @ quote ''5'']"
  using scalar_flag_line [of "exCfg [exA] 2" "exStore [''a = 1'', ''b = 2'']" "[]" exA "[]" exEnv]
  apply (simp add: exCfg_def exStore_def exA_def cap_def start_def view_def exEnv_def Let_def
      less_Suc_eq)
  apply (auto simp add: less_Suc_eq)
  done

text \<open>
  Claim C2, at its failing input. A flag \<open>labels\<close> named in \<open>MapFlags\<close> and not in
  \<open>ListFlags\<close>: \<open>IsMap\<close> does not know it, \<open>Generate\<close> collects no error, hands the
  formatter a text with the scalar line \<open>labels = "broken"\<close> and returns what the formatter
  returns, where the claim has an error; with the value \<open>k=v\<close> the text has the scalar
  line \<open>labels = "k=v"\<close>, where the claim has a block.
\<close>

theorem map_flag_taken_as_scalar:
  "''labels'' \<in> set (MapFlags (exCfg [exLabels ''broken''] 0)) \<and>
   IsMap (exCfg [exLabels ''broken''] 0) ''labels'' = False \<and>
   errs (mergeFlags exEnv (exCfg [exLabels ''broken''] 0) (exStore [])) = [] \<and>
   snd (compose exEnv (exCfg [exLabels ''broken''] 0) (exStore [])) =
     Join [''resource {'', ''labels = '' @ quote ''broken'', ''}''] [CHR 0x0A] \<and>
   snd (Generate exEnv (exCfg [exLabels ''broken''] 0) (exStore [])) =
     Inr (Join [''resource {'', ''labels = '' @ quote ''broken'', ''}''] [CHR 0x0A]) \<and>
   snd (compose exEnv (exCfg [exLabels ''k=v''] 0) (exStore [])) =
     Join [''resource {'', ''labels = '' @ quote ''k=v'', ''}''] [CHR 0x0A] \<and>
   snd (Generate exEnv (exCfg [exLabels ''k=v''] 0) (exStore [])) =
     Inr (Join [''resource {'', ''labels = '' @ quote ''k=v'', ''}''] [CHR 0x0A])"
  by (simp add: Generate_def compose_def mergeFlags_def start_def visit_def removeLine_def
      removeAt_def copy_cells_def appendLine_def append1_def expand_def ranged_def IsMap_def
      exCfg_def exStore_def exEnv_def exLabels_def view_def Let_def IsList_def
      split: sum.splits)

text \<open>
  Claim C6, as amended. For a body slice no longer than its capacity, \<open>Generate\<close> joins
  \<open>pre\<close>, then \<open>c.BodyLines\<close> as the merge left it in the store, then the lines merged
  from the body it started with, then \<open>post\<close>, with newlines, hands the text to the
  formatter, and returns the formatter's output, or the error
  \<open>Could not format output:\<close> with the formatter's message; it returns an error in no
  other case. When the body's array is allocated and no line of the body contains the
  name of a flag that was set, \<open>c.BodyLines\<close> is left as it was.
\<close>

theorem Generate_assembles:
  assumes "len (BodyLines c) \<le> cap h (BodyLines c)"
  shows "let h' = fst (Generate env c h);
             content = Join (PreLines c @ view h' (BodyLines c) @
                             mergedLines env c (view h (BodyLines c)) @ PostLines c) [CHR 0x0A]
         in fst (compose env c h) = h' \<and> snd (compose env c h) = content \<and>
            snd (Generate env c h) =
              (case Format env content of
                 Inl e \<Rightarrow> Inl (''Could not format output: '' @ e)
               | Inr out \<Rightarrow> Inr out) \<and>
            (ptr (BodyLines c) < brk h \<and>
             (\<forall>f\<in>set (Flags c). \<forall>l\<in>set (view h (BodyLines c)). \<not> Contains l (Name f)) \<longrightarrow>
             view h' (BodyLines c) = view h (BodyLines c))"
proof -
  have g: "fst (Generate env c h) = mem (mergeFlags env c h)"
    by (simp add: Generate_def compose_eq [OF assms] split: sum.splits)
  have u: "ptr (BodyLines c) < brk h \<and>
       (\<forall>f\<in>set (Flags c). \<forall>l\<in>set (view h (BodyLines c)). \<not> Contains l (Name f)) \<longrightarrow>
       view (mem (mergeFlags env c h)) (BodyLines c) = view h (BodyLines c)"
    using body_unchanged [OF assms, of env] by (simp add: bodyOf_def)
  show ?thesis
    unfolding Let_def g
    using u by (simp add: Generate_def compose_eq [OF assms] bodyOf_def split: sum.splits)
qed

text \<open>
  The theorem at a body of two lines and the flag \<open>c\<close>, which no line contains.
\<close>

theorem Generate_assembles_witness:
  "snd (Generate exEnv (exCfg [exC] 2) (exStore [''a = 1'', ''b = 2''])) =
     Inr (Join [''resource {'', ''a = 1'', ''b = 2'', ''a = 1'', ''b = 2'', ''c = '' @ quote ''7'', ''}'']
            [CHR 0x0A])"
  using Generate_assembles [of "exCfg [exC] 2" "exStore [''a = 1'', ''b = 2'']" exEnv]
  by (simp add: exCfg_def exStore_def exEnv_def exC_def cap_def view_def Let_def mergedLines_def
      visitL_def IsList_def dropLine_def lineOf_def ranged_def)

text \<open>
  Claim C6 as it is written fails at the body \<open>a = 1\<close> with the flag \<open>a\<close> set to 5: the
  text has the new line twice, not the body followed by the merged lines.
\<close>

theorem Generate_assembles_counterexample:
  "snd (compose exEnv (exCfg [exA] 1) (exStore [''a = 1''])) =
     Join [''resource {'', ''a = '' @ quote ''5'', ''a = '' @ quote ''5'', ''}''] [CHR 0x0A] \<and>
   Join (PreLines (exCfg [exA] 1) @ view (exStore [''a = 1'']) (BodyLines (exCfg [exA] 1)) @
         mergedLines exEnv (exCfg [exA] 1) (view (exStore [''a = 1'']) (BodyLines (exCfg [exA] 1))) @
         PostLines (exCfg [exA] 1)) [CHR 0x0A] =
     Join [''resource {'', ''a = 1'', ''a = '' @ quote ''5'', ''}''] [CHR 0x0A] \<and>
   snd (compose exEnv (exCfg [exA] 1) (exStore [''a = 1''])) \<noteq>
     Join (PreLines (exCfg [exA] 1) @ view (exStore [''a = 1'']) (BodyLines (exCfg [exA] 1)) @
         mergedLines exEnv (exCfg [exA] 1) (view (exStore [''a = 1'']) (BodyLines (exCfg [exA] 1))) @
         PostLines (exCfg [exA] 1)) [CHR 0x0A]"
  by (simp add: compose_def mergeFlags_def start_def visit_def removeLine_def removeAt_def
      copy_cells_def appendLine_def append1_def expand_def ranged_def
      exCfg_def exStore_def exEnv_def exA_def view_def Let_def mergedLines_def
      visitL_def IsList_def dropLine_def lineOf_def quote_def)

text \<open>
  Claim C10, as amended. \<open>lines\<close> starts as \<open>c.BodyLines\<close>, the same view of the same
  array. When the name of the first flag visited occurs in a line of the body, at index
  \<open>i\<close> first, the removal leaves \<open>c.BodyLines\<close> with the lines after \<open>i\<close> moved one place
  left and the empty string last; after the visit the last place holds the new line when
  the flag is a scalar one, and the empty string when it is a list flag. When that flag is
  the only one set, \<open>c.BodyLines\<close> is so when \<open>Generate\<close> returns, the text is \<open>pre\<close>,
  the altered body, the lines merged from the first body and \<open>post\<close>, and a second
  \<open>Generate\<close> on the store the first one left merges the altered body.
\<close>

theorem Generate_alters_body:
  assumes "len (BodyLines c) \<le> cap h (BodyLines c)" and "ptr (BodyLines c) < brk h"
    and "Flags c = f # fs"
    and "\<exists>l\<in>set (view h (BodyLines c)). Contains l (Name f)"
  shows "let B = view h (BodyLines c);
             new = (if IsList c (Name f) then [] else Name f @ '' = '' @ Marshal env (Value f))
         in lines (start c h) = BodyLines c \<and>
            (\<exists>i<length B. Contains (B ! i) (Name f) \<and> (\<forall>j<i. \<not> Contains (B ! j) (Name f)) \<and>
               view (mem (removeLine (Name f) (start c h))) (BodyLines c) =
                 take i B @ drop (Suc i) B @ [[]] \<and>
               view (mem (visit env c f (start c h))) (BodyLines c) =
                 take i B @ drop (Suc i) B @ [new] \<and>
               (fs = [] \<longrightarrow>
                  (let h' = fst (Generate env c h); B' = view h' (BodyLines c)
                   in B' = take i B @ drop (Suc i) B @ [new] \<and>
                      snd (compose env c h) =
                        Join (PreLines c @ B' @ mergedLines env c B @ PostLines c) [CHR 0x0A] \<and>
                      snd (compose env c h') =
                        Join (PreLines c @ view (fst (compose env c h')) (BodyLines c) @
                              mergedLines env c B' @ PostLines c) [CHR 0x0A])))"
proof -
  define B where "B = view h (BodyLines c)"
  define new where "new = (if IsList c (Name f) then [] else lineOf env f)"
  from assms(4) have "findLine B (Name f) \<noteq> None" by (simp add: findLine_None B_def)
  then obtain i where i: "findLine B (Name f) = Some i" by auto
  note fs = findLine_Some [OF i]
  note i' = i [unfolded B_def]
  have r: "view (mem (removeLine (Name f) (start c h))) (BodyLines c) = take i B @ drop (Suc i) B @ [[]]"
    using removeLine_start(1) [OF assms(1) i'] by (simp add: bodyOf_def B_def)
  have v: "view (mem (visit env c f (start c h))) (BodyLines c) = take i B @ drop (Suc i) B @ [new]"
    using visit_first(1) [OF assms(1,2) i', of env] by (simp add: bodyOf_def B_def new_def)
  have g: "fst (Generate env c h) = mem (mergeFlags env c h)"
    by (simp add: Generate_def compose_eq [OF assms(1)] split: sum.splits)
  have s: "fs = [] \<longrightarrow>
      view (mem (mergeFlags env c h)) (BodyLines c) = take i B @ drop (Suc i) B @ [new] \<and>
      snd (compose env c h) =
        Join (PreLines c @ view (mem (mergeFlags env c h)) (BodyLines c) @ mergedLines env c B @
              PostLines c) [CHR 0x0A] \<and>
      snd (compose env c (mem (mergeFlags env c h))) =
        Join (PreLines c @ view (fst (compose env c (mem (mergeFlags env c h)))) (BodyLines c) @
              mergedLines env c (view (mem (mergeFlags env c h)) (BodyLines c)) @ PostLines c) [CHR 0x0A]"
  proof
    assume "fs = []"
    with assms(3) have one: "Flags c = [f]" by simp
    note ms = merge_single [OF assms(1,2) i' one, of env]
    from ms(2) have w': "len (BodyLines c) \<le> cap (mem (mergeFlags env c h)) (BodyLines c)"
      by (simp add: keeps_def)
    from ms(1) v have b': "view (mem (mergeFlags env c h)) (BodyLines c) = take i B @ drop (Suc i) B @ [new]"
      by (simp add: bodyOf_def)
    show "view (mem (mergeFlags env c h)) (BodyLines c) = take i B @ drop (Suc i) B @ [new] \<and>
      snd (compose env c h) =
        Join (PreLines c @ view (mem (mergeFlags env c h)) (BodyLines c) @ mergedLines env c B @
              PostLines c) [CHR 0x0A] \<and>
      snd (compose env c (mem (mergeFlags env c h))) =
        Join (PreLines c @ view (fst (compose env c (mem (mergeFlags env c h)))) (BodyLines c) @
              mergedLines env c (view (mem (mergeFlags env c h)) (BodyLines c)) @ PostLines c) [CHR 0x0A]"
      using b' by (simp add: compose_eq [OF assms(1)] compose_eq [OF w'] bodyOf_def B_def)
  qed
  have "lines (start c h) = BodyLines c" by (simp add: start_def)
  with fs r v s show ?thesis
    unfolding Let_def g B_def [symmetric] lineOf_def [symmetric] new_def [symmetric]
    by blast
qed

text \<open>
  The theorem at a body of two lines and the flag \<open>a\<close> with value 5.
\<close>

theorem Generate_alters_body_witness:
  "view (fst (Generate exEnv (exCfg [exA] 2) (exStore [''a = 1'', ''b = 2''])))
        (BodyLines (exCfg [exA] 2)) = [''b = 2'', ''a = '' @ quote ''5'']"
  using Generate_alters_body [of "exCfg [exA] 2" "exStore [''a = 1'', ''b = 2'']" exA "[]" exEnv]
  apply (simp add: exCfg_def exStore_def exEnv_def exA_def cap_def view_def Let_def IsList_def)
  apply (auto simp add: less_Suc_eq)
  done

text \<open>
  Claim C10 as it is written fails when an append has moved \<open>lines\<close> to an array of its
  own before the line is removed: the body \<open>x\<close>, \<open>b = 1\<close> of capacity two, and the flags
  \<open>a\<close> and \<open>b\<close>. The name of \<open>b\<close> occurs in a line of the body, and \<open>c.BodyLines\<close> is
  as it was when \<open>Generate\<close> returns.
\<close>

theorem Generate_alters_body_counterexample:
  "exB \<in> set (Flags (exCfg [exA, exB] 2)) \<and>
   view (exStore [''x'', ''b = 1'']) (BodyLines (exCfg [exA, exB] 2)) = [''x'', ''b = 1''] \<and>
   Contains ''b = 1'' (Name exB) \<and>
   view (fst (Generate exEnv (exCfg [exA, exB] 2) (exStore [''x'', ''b = 1''])))
        (BodyLines (exCfg [exA, exB] 2)) = [''x'', ''b = 1'']"
  by (simp add: Generate_def compose_def mergeFlags_def start_def visit_def removeLine_def removeAt_def
      copy_cells_def appendLine_def append1_def expand_def ranged_def
      exCfg_def exStore_def exEnv_def exA_def exB_def view_def Let_def IsList_def
      split: sum.splits)

section \<open>Lemmas on the router and the lifecycle\<close>

lemma call_bnd:
  "bnd (call f ev) k w = (case f w of (x, w1) \<Rightarrow> (case k x w1 of (r, w2, t2) \<Rightarrow> (r, w2, ev x # t2)))"
  by (simp add: bnd_def call_def split: prod.splits)

lemma emits_bnd:
  "bnd (emits es) k w = (case k () w of (r, w2, t2) \<Rightarrow> (r, w2, es @ t2))"
  by (simp add: bnd_def emits_def split: prod.splits)

lemma bnd_FatalError [simp]: "bnd (FatalError e) k = FatalError e"
  by (rule ext) (simp add: bnd_def FatalError_def)

lemma showHelp_cases:
  assumes "showHelp env arg0 w = (r, w', tr)"
  shows "r = Exit 1 \<and>
     ((\<exists>e. tr = [EvHasTerraform True, EvGetTerraform (Some e), Fatal e]) \<or>
      (\<exists>x. tr = [EvHasTerraform True, EvGetTerraform None, EvInvoke [] x] @ pluginHelpLines env arg0) \<or>
      tr = EvHasTerraform False # missingTerraformHelpLines env @ pluginHelpLines env arg0)"
  using assms
  by (auto simp add: showHelp_def call_bnd emits_bnd bnd_def call_def FatalError_def osExit_def ret_def
      showPluginHelp_def emits_def showMissingTerraformHelp_def
      simp del: append.simps split: prod.splits option.splits if_splits)

lemma preRun_cases:
  "preRun ps i w = (r, w', tr) \<Longrightarrow>
   (r = Done () \<and> tr = befores i ps) \<or>
   (\<exists>qs p rest e. ps = qs @ p # rest \<and> r = Exit 1 \<and>
      tr = befores i qs @
           [EvBeforeRun (GetName p) i (Some e), Fatal (''Could not start '' @ GetName p @ '': '' @ e)])"
proof (induction ps arbitrary: w r w' tr)
  case Nil
  then show ?case by (simp add: ret_def befores_def)
next
  case (Cons p ps)
  obtain x w1 where c: "BeforeRun p i w = (x, w1)" by (cases "BeforeRun p i w")
  show ?case
  proof (cases x)
    case None
    obtain r2 w2 t2 where k: "preRun ps i w1 = (r2, w2, t2)" by (cases "preRun ps i w1") auto
    with Cons.prems c None have e: "r = r2" "w' = w2" "tr = EvBeforeRun (GetName p) i None # t2"
      by (simp_all add: call_bnd)
    from Cons.IH [OF k] show ?thesis
    proof
      assume "r2 = Done () \<and> t2 = befores i ps"
      with e show ?thesis by (simp add: befores_def)
    next
      assume "\<exists>qs p rest e. ps = qs @ p # rest \<and> r2 = Exit 1 \<and>
        t2 = befores i qs @
           [EvBeforeRun (GetName p) i (Some e), Fatal (''Could not start '' @ GetName p @ '': '' @ e)]"
      then obtain qs q rest e' where "ps = qs @ q # rest" "r2 = Exit 1"
        "t2 = befores i qs @
           [EvBeforeRun (GetName q) i (Some e'), Fatal (''Could not start '' @ GetName q @ '': '' @ e')]"
        by blast
      with e have "p # ps = (p # qs) @ q # rest \<and> r = Exit 1 \<and>
        tr = befores i (p # qs) @
           [EvBeforeRun (GetName q) i (Some e'), Fatal (''Could not start '' @ GetName q @ '': '' @ e')]"
        by (simp add: befores_def)
      then show ?thesis by blast
    qed
  next
    case (Some e)
    with Cons.prems c have "p # ps = [] @ p # ps \<and> r = Exit 1 \<and>
        tr = befores i [] @
           [EvBeforeRun (GetName p) i (Some e), Fatal (''Could not start '' @ GetName p @ '': '' @ e)]"
      by (simp add: call_bnd FatalError_def befores_def)
    then show ?thesis by blast
  qed
qed

lemma postRun_cases:
  "postRun ps err w = (r, w', tr) \<Longrightarrow>
   (r = Done () \<and> tr = afters err ps) \<or>
   (\<exists>qs p rest pe. ps = qs @ p # rest \<and> r = fst (finalizeFailure (GetName p) err) \<and>
      tr = afters err qs @ EvAfterRun (GetName p) err (Some pe) # snd (finalizeFailure (GetName p) err))"
proof (induction ps arbitrary: w r w' tr)
  case Nil
  then show ?case by (simp add: ret_def afters_def)
next
  case (Cons p ps)
  obtain x w1 where c: "AfterRun p err w = (x, w1)" by (cases "AfterRun p err w")
  show ?case
  proof (cases x)
    case None
    obtain r2 w2 t2 where k: "postRun ps err w1 = (r2, w2, t2)" by (cases "postRun ps err w1") auto
    with Cons.prems c None have e: "r = r2" "w' = w2" "tr = EvAfterRun (GetName p) err None # t2"
      by (simp_all add: call_bnd)
    from Cons.IH [OF k] show ?thesis
    proof
      assume "r2 = Done () \<and> t2 = afters err ps"
      with e show ?thesis by (simp add: afters_def)
    next
      assume "\<exists>qs p rest pe. ps = qs @ p # rest \<and> r2 = fst (finalizeFailure (GetName p) err) \<and>
        t2 = afters err qs @ EvAfterRun (GetName p) err (Some pe) # snd (finalizeFailure (GetName p) err)"
      then obtain qs q rest pe where "ps = qs @ q # rest" "r2 = fst (finalizeFailure (GetName q) err)"
        "t2 = afters err qs @ EvAfterRun (GetName q) err (Some pe) # snd (finalizeFailure (GetName q) err)"
        by blast
      with e have "p # ps = (p # qs) @ q # rest \<and> r = fst (finalizeFailure (GetName q) err) \<and>
        tr = afters err (p # qs) @ EvAfterRun (GetName q) err (Some pe) # snd (finalizeFailure (GetName q) err)"
        by (simp add: afters_def)
      then show ?thesis by blast
    qed
  next
    case (Some pe)
    with Cons.prems c have "p # ps = [] @ p # ps \<and> r = fst (finalizeFailure (GetName p) err) \<and>
        tr = afters err [] @ EvAfterRun (GetName p) err (Some pe) # snd (finalizeFailure (GetName p) err)"
      by (auto simp add: call_bnd FatalError_def panic_def afters_def finalizeFailure_def
          split: option.splits)
    then show ?thesis by blast
  qed
qed

lemma invokeTerraform_cases:
  assumes "invokeTerraform env ps args w = (r, w', tr)"
  shows "(\<exists>qs p rest e. ps = qs @ p # rest \<and> r = Exit 1 \<and>
            tr = befores (list_ex (\<lambda>arg. arg = ''init'') args) qs @
              [EvBeforeRun (GetName p) (list_ex (\<lambda>arg. arg = ''init'') args) (Some e),
               Fatal (''Could not start '' @ GetName p @ '': '' @ e)]) \<or>
         (\<exists>x. r = Done () \<and>
            tr = befores (list_ex (\<lambda>arg. arg = ''init'') args) ps @ EvInvoke args x # afters x ps) \<or>
         (\<exists>x qs p rest pe. ps = qs @ p # rest \<and> r = fst (finalizeFailure (GetName p) x) \<and>
            tr = befores (list_ex (\<lambda>arg. arg = ''init'') args) ps @ EvInvoke args x # afters x qs @
                 EvAfterRun (GetName p) x (Some pe) # snd (finalizeFailure (GetName p) x))"
proof -
  define i where "i = list_ex (\<lambda>arg. arg = ''init'') args"
  obtain r1 w1 t1 where p: "preRun ps i w = (r1, w1, t1)" by (cases "preRun ps i w") auto
  from preRun_cases [OF p] show ?thesis
  proof
    assume d: "r1 = Done () \<and> t1 = befores i ps"
    obtain x w2 where c: "Invoke env args w1 = (x, w2)" by (cases "Invoke env args w1")
    obtain r3 w3 t3 where q: "postRun ps x w2 = (r3, w3, t3)" by (cases "postRun ps x w2") auto
    from assms p d c q have e: "r = r3" "tr = befores i ps @ EvInvoke args x # t3"
      by (simp_all add: invokeTerraform_def Let_def i_def [symmetric] bnd_def call_def)
    from postRun_cases [OF q] e show ?thesis
      unfolding i_def [symmetric] by auto
  next
    assume "\<exists>qs p rest e. ps = qs @ p # rest \<and> r1 = Exit 1 \<and>
      t1 = befores i qs @
           [EvBeforeRun (GetName p) i (Some e), Fatal (''Could not start '' @ GetName p @ '': '' @ e)]"
    then obtain qs q rest e where f: "ps = qs @ q # rest" "r1 = Exit 1"
      "t1 = befores i qs @
           [EvBeforeRun (GetName q) i (Some e), Fatal (''Could not start '' @ GetName q @ '': '' @ e)]"
      by blast
    with assms p have "r = Exit 1" "tr = t1"
      by (simp_all add: invokeTerraform_def Let_def i_def [symmetric] bnd_def)
    with f show ?thesis
      unfolding i_def [symmetric] by blast
  qed
qed

lemma usedNames_append: "usedNames (xs @ ys) = usedNames xs @ usedNames ys"
  by (induction xs rule: usedNames.induct) simp_all

lemma loadLoop_cases:
  "loadLoop ps acc w = (r, w', tr) \<Longrightarrow>
   (\<exists>l. r = Done (acc @ l) \<and> set l \<subseteq> set ps \<and> map GetName l = usedNames tr \<and>
        (\<forall>e\<in>set tr. kindOf e = KIsUsed \<or> kindOf e = KInfo)) \<or>
   (\<exists>t e. r = Exit 1 \<and> tr = t @ [Fatal e] \<and> (\<forall>e\<in>set t. kindOf e = KIsUsed \<or> kindOf e = KInfo))"
proof (induction ps arbitrary: acc w r w' tr)
  case Nil
  then show ?case by (simp add: ret_def)
next
  case (Cons p ps)
  obtain x w1 where c: "IsUsed p w = (x, w1)" by (cases "IsUsed p w")
  show ?case
  proof (cases x)
    case (Inl e)
    with Cons.prems c have "r = Exit 1 \<and> tr = [EvIsUsed (GetName p) (Inl e)] @ [Fatal e]"
      by (simp add: call_bnd FatalError_def)
    then show ?thesis by fastforce
  next
    case (Inr used)
    show ?thesis
    proof (cases used)
      case True
      obtain r2 w2 t2 where k: "loadLoop ps (acc @ [p]) w1 = (r2, w2, t2)"
        by (cases "loadLoop ps (acc @ [p]) w1") auto
      with Cons.prems c Inr True
      have e: "r = r2" "tr = EvIsUsed (GetName p) (Inr True) # Info (''Using plugin '' @ GetName p) # t2"
        by (simp_all add: call_bnd PrintInfo_def emits_bnd)
      from Cons.IH [OF k] show ?thesis
      proof
        assume "\<exists>l. r2 = Done ((acc @ [p]) @ l) \<and> set l \<subseteq> set ps \<and> map GetName l = usedNames t2 \<and>
          (\<forall>e\<in>set t2. kindOf e = KIsUsed \<or> kindOf e = KInfo)"
        then obtain l where "r2 = Done (acc @ p # l)" "set l \<subseteq> set ps" "map GetName l = usedNames t2"
          "\<forall>e\<in>set t2. kindOf e = KIsUsed \<or> kindOf e = KInfo" by auto
        with e have "r = Done (acc @ (p # l)) \<and> set (p # l) \<subseteq> set (p # ps) \<and>
          map GetName (p # l) = usedNames tr \<and> (\<forall>e\<in>set tr. kindOf e = KIsUsed \<or> kindOf e = KInfo)"
          by auto
        then show ?thesis by blast
      next
        assume "\<exists>t e. r2 = Exit 1 \<and> t2 = t @ [Fatal e] \<and> (\<forall>e\<in>set t. kindOf e = KIsUsed \<or> kindOf e = KInfo)"
        then obtain t e' where "r2 = Exit 1" "t2 = t @ [Fatal e']"
          "\<forall>e\<in>set t. kindOf e = KIsUsed \<or> kindOf e = KInfo" by blast
        with e have "r = Exit 1 \<and>
          tr = (EvIsUsed (GetName p) (Inr True) # Info (''Using plugin '' @ GetName p) # t) @ [Fatal e'] \<and>
          (\<forall>e\<in>set (EvIsUsed (GetName p) (Inr True) # Info (''Using plugin '' @ GetName p) # t).
              kindOf e = KIsUsed \<or> kindOf e = KInfo)"
          by simp
        then show ?thesis by blast
      qed
    next
      case False
      obtain r2 w2 t2 where k: "loadLoop ps acc w1 = (r2, w2, t2)"
        by (cases "loadLoop ps acc w1") auto
      with Cons.prems c Inr False
      have e: "r = r2" "tr = EvIsUsed (GetName p) (Inr False) # t2"
        by (simp_all add: call_bnd)
      from Cons.IH [OF k] show ?thesis
      proof
        assume "\<exists>l. r2 = Done (acc @ l) \<and> set l \<subseteq> set ps \<and> map GetName l = usedNames t2 \<and>
          (\<forall>e\<in>set t2. kindOf e = KIsUsed \<or> kindOf e = KInfo)"
        then obtain l where "r2 = Done (acc @ l)" "set l \<subseteq> set ps" "map GetName l = usedNames t2"
          "\<forall>e\<in>set t2. kindOf e = KIsUsed \<or> kindOf e = KInfo" by auto
        with e have "r = Done (acc @ l) \<and> set l \<subseteq> set (p # ps) \<and>
          map GetName l = usedNames tr \<and> (\<forall>e\<in>set tr. kindOf e = KIsUsed \<or> kindOf e = KInfo)"
          by auto
        then show ?thesis by blast
      next
        assume "\<exists>t e. r2 = Exit 1 \<and> t2 = t @ [Fatal e] \<and> (\<forall>e\<in>set t. kindOf e = KIsUsed \<or> kindOf e = KInfo)"
        then obtain t e' where "r2 = Exit 1" "t2 = t @ [Fatal e']"
          "\<forall>e\<in>set t. kindOf e = KIsUsed \<or> kindOf e = KInfo" by blast
        with e have "r = Exit 1 \<and> tr = (EvIsUsed (GetName p) (Inr False) # t) @ [Fatal e'] \<and>
          (\<forall>e\<in>set (EvIsUsed (GetName p) (Inr False) # t). kindOf e = KIsUsed \<or> kindOf e = KInfo)"
          by simp
        then show ?thesis by blast
      qed
    qed
  qed
qed

lemma scan_zero: "0 < i \<Longrightarrow> (fst (scanCommand as i) = 0) = list_all (\<lambda>a. HasPrefix a ''-'') as"
  by (induction as arbitrary: i) auto

lemma scan_find:
  "\<not> list_all (\<lambda>a. HasPrefix a ''-'') as \<Longrightarrow>
   find (\<lambda>a. \<not> HasPrefix a ''-'') as = Some (snd (scanCommand as i))"
  by (induction as arbitrary: i) auto

lemma loadPlugins_cases:
  assumes "loadPlugins env w = (r, w', tr)"
  obtains (loaded) l where "r = Done l" "set l \<subseteq> set (plugins env)" "map GetName l = usedNames tr"
      "\<forall>e\<in>set tr. kindOf e = KIsUsed \<or> kindOf e = KInfo"
    | (fatal) t e where "r = Exit 1" "tr = t @ [Fatal e]" "\<forall>e\<in>set t. kindOf e = KIsUsed \<or> kindOf e = KInfo"
  using loadLoop_cases [OF assms [unfolded loadPlugins_def]] by auto

lemma initialize_cases:
  assumes "initialize env w = (r, w', tr)"
  obtains (reload) e where "r = Exit 1" "tr = [infoInit, EvReload (Some e), Fatal e]"
    | (load) t e where "r = Exit 1" "tr = infoInit # EvReload None # t @ [Fatal e]"
        "\<forall>e\<in>set t. kindOf e = KIsUsed \<or> kindOf e = KInfo"
    | (life) t l t2 w2 where "tr = infoInit # EvReload None # t @ t2"
        "\<forall>e\<in>set t. kindOf e = KIsUsed \<or> kindOf e = KInfo"
        "set l \<subseteq> set (plugins env)" "map GetName l = usedNames t"
        "invokeTerraform env l [''init''] w2 = (r, w', t2)"
proof -
  obtain x w1 where c: "ReloadTerraformProject env w = (x, w1)"
    by (cases "ReloadTerraformProject env w")
  show ?thesis
  proof (cases x)
    case (Some e)
    with assms c have "r = Exit 1" "tr = [infoInit, EvReload (Some e), Fatal e]"
      by (simp_all add: initialize_def PrintInfo_def emits_bnd call_bnd FatalError_def infoInit_def)
    then show ?thesis by (rule reload)
  next
    case None
    obtain r1 w2 t1 where l: "loadPlugins env w1 = (r1, w2, t1)"
      by (cases "loadPlugins env w1") auto
    from l show ?thesis
    proof (cases rule: loadPlugins_cases)
      case (loaded ps)
      obtain r2 w3 t2 where i: "invokeTerraform env ps [''init''] w2 = (r2, w3, t2)"
        by (cases "invokeTerraform env ps [''init''] w2") auto
      with assms c None l loaded(1)
      have "tr = infoInit # EvReload None # t1 @ t2" "r = r2" "w' = w3"
        by (simp_all add: initialize_def PrintInfo_def emits_def call_def infoInit_def bnd_def)
      with loaded i show ?thesis by (intro life [of t1 t2 ps w2]) simp_all
    next
      case (fatal t e)
      with assms c None l
      have "r = Exit 1" "tr = infoInit # EvReload None # t @ [Fatal e]"
        by (simp_all add: initialize_def PrintInfo_def emits_def call_def infoInit_def bnd_def)
      then show ?thesis using fatal(3) by (intro load [of t e]) simp_all
    qed
  qed
qed

lemma dispatch_cases:
  assumes "dispatch env cmd args h w = (r, w', tr)"
  obtains (tf) e where "r = Exit 1" "tr = [EvGetTerraform (Some e), Fatal e]"
    | (handler) e where "r = Exit 1"
        "tr = [EvGetTerraform None, EvHandle (cmdName cmd) (drop 1 args) (Some e), Fatal e]"
    | (files) e where "r = Exit 1"
        "tr = [EvGetTerraform None, EvHandle (cmdName cmd) (drop 1 args) None,
               EvHasTerraformFiles (Inl e), Fatal e]"
    | (finished) now where "h \<or> \<not> now" "r = Done ()"
        "tr = [EvGetTerraform None, EvHandle (cmdName cmd) (drop 1 args) None,
               EvHasTerraformFiles (Inr now)]"
    | (init) t w1 where "\<not> h"
        "tr = EvGetTerraform None # EvHandle (cmdName cmd) (drop 1 args) None #
              EvHasTerraformFiles (Inr True) # t"
        "initialize env w1 = (r, w', t)"
proof -
  obtain x1 w1 where c1: "GetTerraform env w = (x1, w1)" by (cases "GetTerraform env w")
  obtain x2 w2 where c2: "Handle cmd (drop 1 args) w1 = (x2, w2)" by (cases "Handle cmd (drop 1 args) w1")
  obtain x3 w3 where c3: "HasTerraformFiles env w2 = (x3, w3)" by (cases "HasTerraformFiles env w2")
  obtain r4 w4 t4 where c4: "initialize env w3 = (r4, w4, t4)" by (cases "initialize env w3") auto
  show ?thesis
  proof (cases x1)
    case (Some e)
    with assms c1 show ?thesis
      by (intro tf [of e]) (simp_all add: dispatch_def call_bnd FatalError_def)
  next
    case n1: None
    show ?thesis
    proof (cases x2)
      case (Some e)
      with assms c1 c2 n1 show ?thesis
        by (intro handler [of e]) (simp_all add: dispatch_def call_bnd FatalError_def)
    next
      case n2: None
      show ?thesis
      proof (cases x3)
        case (Inl e)
        with assms c1 c2 c3 n1 n2 show ?thesis
          by (intro files [of e]) (simp_all add: dispatch_def call_bnd FatalError_def)
      next
        case (Inr now)
        show ?thesis
        proof (cases "\<not> h \<and> now")
          case True
          with assms c1 c2 c3 c4 n1 n2 Inr show ?thesis
            by (intro init [of t4 w3]) (simp_all add: dispatch_def call_bnd)
        next
          case False
          with assms c1 c2 c3 n1 n2 Inr show ?thesis
            by (intro finished [of now]) (auto simp add: dispatch_def call_bnd ret_def)
        qed
      qed
    qed
  qed
qed

lemma forward_cases:
  assumes "forward env arg0 args h w = (r, w', tr)"
  obtains (tf) e where "r = Exit 1" "tr = [EvGetTerraform (Some e), Fatal e]"
    | (load) t e where "r = Exit 1" "tr = EvGetTerraform None # t @ [Fatal e]"
        "\<forall>e\<in>set t. kindOf e = KIsUsed \<or> kindOf e = KInfo"
    | (life) t l t2 w2 w3 r2 ps where "tr = EvGetTerraform None # t @ t2 @ ps"
        "\<forall>e\<in>set t. kindOf e = KIsUsed \<or> kindOf e = KInfo"
        "set l \<subseteq> set (plugins env)" "map GetName l = usedNames t"
        "invokeTerraform env l args w2 = (r2, w3, t2)"
        "r2 = Done () \<longrightarrow> r = Done () \<and> (\<forall>e\<in>set ps. kindOf e = KPrint)"
        "r2 \<noteq> Done () \<longrightarrow> r = r2 \<and> ps = []"
proof -
  obtain x w1 where c: "GetTerraform env w = (x, w1)" by (cases "GetTerraform env w")
  show ?thesis
  proof (cases x)
    case (Some e)
    with assms c show ?thesis
      by (intro tf [of e]) (simp_all add: forward_def call_bnd FatalError_def)
  next
    case None
    obtain r1 w2 t1 where l: "loadPlugins env w1 = (r1, w2, t1)"
      by (cases "loadPlugins env w1") auto
    from l show ?thesis
    proof (cases rule: loadPlugins_cases)
      case (loaded ps)
      obtain r2 w3 t2 where i: "invokeTerraform env ps args w2 = (r2, w3, t2)"
        by (cases "invokeTerraform env ps args w2") auto
      define tail where "tail = (if r2 = Done () \<and> \<not> h then
            [Print [],
             Print (''Consider running '' @ arg0 @ '' add-aws-cluster if you are trying to''),
             Print (''launch a DC/OS cluster. Or '' @ arg0 @ '' -help to see all options'')]
            else [])"
      from assms c None l loaded(1) i
      have "tr = EvGetTerraform None # t1 @ t2 @ tail"
        "r2 = Done () \<longrightarrow> r = Done () \<and> (\<forall>e\<in>set tail. kindOf e = KPrint)"
        "r2 \<noteq> Done () \<longrightarrow> r = r2 \<and> tail = []"
        by (auto simp add: forward_def call_def bnd_def emits_def ret_def tail_def
            split: res.splits if_splits)
      with loaded i show ?thesis by (intro life [of t1 t2 tail ps w2 r2 w3]) simp_all
    next
      case (fatal t e)
      with assms c None l
      have "r = Exit 1" "tr = EvGetTerraform None # t @ [Fatal e]"
        by (simp_all add: forward_def call_def bnd_def)
      then show ?thesis using fatal(3) by (intro load [of t e]) simp_all
    qed
  qed
qed

lemma route_cases:
  assumes "route env arg0 args h w = (r, w', tr)"
  obtains (flags) "list_all (\<lambda>a. HasPrefix a ''-'') args" "showHelp env arg0 w = (r, w', tr)"
    | (plugin) cmd where "\<not> list_all (\<lambda>a. HasPrefix a ''-'') args"
        "findPluginCommand (plugins env) (snd (scanCommand args 1)) = Some cmd"
        "dispatch env cmd args h w = (r, w', tr)"
    | (unknown) "\<not> list_all (\<lambda>a. HasPrefix a ''-'') args"
        "findPluginCommand (plugins env) (snd (scanCommand args 1)) = None"
        "\<not> isTerraformCommand args" "showHelp env arg0 w = (r, w', tr)"
    | (passthrough) "\<not> list_all (\<lambda>a. HasPrefix a ''-'') args"
        "findPluginCommand (plugins env) (snd (scanCommand args 1)) = None"
        "isTerraformCommand args" "forward env arg0 args h w = (r, w', tr)"
proof -
  have z: "(fst (scanCommand args 1) = 0) = list_all (\<lambda>a. HasPrefix a ''-'') args"
    by (rule scan_zero) simp
  show ?thesis
  proof (cases "fst (scanCommand args 1) = 0")
    case True
    with assms z show ?thesis
      by (intro flags) (simp_all add: route_def split: prod.splits)
  next
    case nz: False
    show ?thesis
    proof (cases "findPluginCommand (plugins env) (snd (scanCommand args 1))")
      case (Some cmd)
      with assms z nz show ?thesis
        by (intro plugin [of cmd]) (auto simp add: route_def split: prod.splits)
    next
      case None
      show ?thesis
      proof (cases "isTerraformCommand args")
        case True
        with assms z nz None show ?thesis
          by (intro passthrough) (auto simp add: route_def split: prod.splits)
      next
        case False
        with assms z nz None show ?thesis
          by (intro unknown) (auto simp add: route_def split: prod.splits)
      qed
    qed
  qed
qed

lemma run_cases:
  assumes "run env arg0 args w = (r, w', tr)"
  obtains (getwd) e where "r = Exit 1" "tr = [EvGetwd (Inl e), Fatal e]"
    | (sandbox) cwd e where "r = Exit 1" "tr = [EvGetwd (Inr cwd), EvOpenSandbox cwd (Some e), Fatal e]"
    | (early) cwd w2 t where "args = [] \<or> Contains (hd args) ''help''"
        "tr = EvGetwd (Inr cwd) # EvOpenSandbox cwd None # t" "showHelp env arg0 w2 = (r, w', t)"
    | (files) cwd e where "\<not> (args = [] \<or> Contains (hd args) ''help'')" "r = Exit 1"
        "tr = [EvGetwd (Inr cwd), EvOpenSandbox cwd None, EvHasTerraformFiles (Inl e), Fatal e]"
    | (routed) cwd h w3 t where "\<not> (args = [] \<or> Contains (hd args) ''help'')"
        "tr = EvGetwd (Inr cwd) # EvOpenSandbox cwd None # EvHasTerraformFiles (Inr h) # t"
        "route env arg0 args h w3 = (r, w', t)"
proof -
  obtain x1 w1 where c1: "Getwd env w = (x1, w1)" by (cases "Getwd env w")
  show ?thesis
  proof (cases x1)
    case (Inl e)
    with assms c1 show ?thesis
      by (intro getwd [of e]) (simp_all add: run_def call_bnd FatalError_def)
  next
    case (Inr cwd)
    obtain x2 w2 where c2: "OpenSandbox env cwd w1 = (x2, w2)" by (cases "OpenSandbox env cwd w1")
    show ?thesis
    proof (cases x2)
      case (Some e)
      with assms c1 c2 Inr show ?thesis
        by (intro sandbox [of cwd e]) (simp_all add: run_def call_bnd FatalError_def)
    next
      case None
      show ?thesis
      proof (cases "args = [] \<or> Contains (hd args) ''help''")
        case True
        obtain r3 w3 t3 where c3: "showHelp env arg0 w2 = (r3, w3, t3)"
          by (cases "showHelp env arg0 w2") auto
        from assms c1 c2 Inr None True c3 show ?thesis
          by (intro early [of cwd t3 w2]) (auto simp add: run_def call_bnd)
      next
        case False
        obtain x3 w3 where c3: "HasTerraformFiles env w2 = (x3, w3)"
          by (cases "HasTerraformFiles env w2")
        show ?thesis
        proof (cases x3)
          case (Inl e)
          with assms c1 c2 c3 Inr None False show ?thesis
            by (intro files [of cwd e]) (simp_all add: run_def call_bnd FatalError_def)
        next
          case h: (Inr h)
          obtain r4 w4 t4 where c4: "route env arg0 args h w3 = (r4, w4, t4)"
            by (cases "route env arg0 args h w3") auto
          from assms c1 c2 c3 c4 Inr None False h show ?thesis
            by (intro routed [of cwd h t4 w3]) (simp_all add: run_def call_bnd)
        qed
      qed
    qed
  qed
qed

lemma main_run: "\<not> earlyCommand args \<Longrightarrow> main env arg0 args = run env arg0 args"
  by (simp add: main_def earlyCommand_def split: list.splits)

lemma kind_befores: "e \<in> set (befores i ps) \<Longrightarrow> kindOf e = KBeforeRun"
  by (auto simp add: befores_def)

lemma kind_afters: "e \<in> set (afters x ps) \<Longrightarrow> kindOf e = KAfterRun"
  by (auto simp add: afters_def)

lemma kind_pluginHelp: "e \<in> set (pluginHelpLines env arg0) \<Longrightarrow> kindOf e = KPrint"
  by (auto simp add: pluginHelpLines_def commandLine_def)

lemma kind_missingHelp: "e \<in> set (missingTerraformHelpLines env) \<Longrightarrow> kindOf e = KPrint"
  by (auto simp add: missingTerraformHelpLines_def)

lemma kind_finalize:
  "e \<in> set (snd (finalizeFailure n x)) \<Longrightarrow> kindOf e = KFatal"
  by (auto simp add: finalizeFailure_def split: option.splits)

lemmas kd = kind_befores kind_afters kind_pluginHelp kind_missingHelp kind_finalize

lemma showHelp_kinds:
  assumes "showHelp env arg0 w = (r, w', t)" "e \<in> set t"
  shows "kindOf e = KHasTerraform \<or> kindOf e = KGetTerraform \<or> kindOf e = KFatal \<or>
         (\<exists>x. e = EvInvoke [] x) \<or> kindOf e = KPrint"
  using showHelp_cases [OF assms(1)] assms(2) by (auto dest: kd)

lemma showHelp_shown:
  assumes "showHelp env arg0 w = (r, w', t)" "\<forall>e. Fatal e \<notin> set t"
  shows "r = Exit 1"
    and "(\<exists>x. t = [EvHasTerraform True, EvGetTerraform None, EvInvoke [] x] @ pluginHelpLines env arg0) \<or>
         t = EvHasTerraform False # missingTerraformHelpLines env @ pluginHelpLines env arg0"
  using showHelp_cases [OF assms(1)] assms(2) by (auto dest: kd)

lemma invoke_kinds:
  assumes "invokeTerraform env ps args w = (r, w', t)" "e \<in> set t"
  shows "kindOf e = KBeforeRun \<or> kindOf e = KInvoke \<or> kindOf e = KAfterRun \<or> kindOf e = KFatal"
  using invokeTerraform_cases [OF assms(1)] assms(2)
  by (auto dest: kd)

lemma fatal_kind: "(\<exists>e. Fatal e \<in> set t) = (\<exists>e\<in>set t. kindOf e = KFatal)"
proof
  assume "\<exists>e. Fatal e \<in> set t"
  then obtain e where "Fatal e \<in> set t" ..
  then have "Fatal e \<in> set t \<and> kindOf (Fatal e) = KFatal" by simp
  then show "\<exists>e\<in>set t. kindOf e = KFatal" by blast
next
  assume "\<exists>e\<in>set t. kindOf e = KFatal"
  then obtain e where e: "e \<in> set t" "kindOf e = KFatal" by blast
  from e(2) obtain m where "e = Fatal m" by (cases e) simp_all
  with e show "\<exists>e. Fatal e \<in> set t" by blast
qed

lemma invoke_exit:
  assumes "invokeTerraform env ps args w = (Exit n, w', t)"
  shows "\<exists>e\<in>set t. kindOf e = KFatal"
  using invokeTerraform_cases [OF assms]
  by (auto simp add: finalizeFailure_def split: option.splits)

lemma invoke_done:
  assumes "invokeTerraform env ps args w = (Done u, w', t)"
  shows "\<exists>x. t = befores (list_ex (\<lambda>arg. arg = ''init'') args) ps @ EvInvoke args x # afters x ps"
  using invokeTerraform_cases [OF assms]
  by (auto simp add: finalizeFailure_def split: option.splits)

lemma invoke_nofatal:
  assumes "invokeTerraform env ps args w = (r, w', t)" "\<forall>e. Fatal e \<notin> set t"
  shows "\<exists>x. EvInvoke args x \<in> set t"
  using invokeTerraform_cases [OF assms(1)] assms(2) by auto

lemma initialize_exit:
  assumes "initialize env w = (Exit n, w', t)"
  shows "\<exists>e\<in>set t. kindOf e = KFatal"
  using assms
proof (cases rule: initialize_cases)
  case (reload e)
  then show ?thesis by simp
next
  case (load t1 e)
  then show ?thesis by simp
next
  case (life t1 l t2 w2)
  with invoke_exit [OF life(5)] show ?thesis by auto
qed

lemma dispatch_exit:
  assumes "dispatch env cmd args h w = (Exit n, w', t)"
  shows "\<exists>e\<in>set t. kindOf e = KFatal"
  using assms
proof (cases rule: dispatch_cases)
  case (tf e)
  then show ?thesis by simp
next
  case (handler e)
  then show ?thesis by simp
next
  case (files e)
  then show ?thesis by simp
next
  case (finished now)
  then show ?thesis by simp
next
  case (init t1 w1)
  with initialize_exit [OF init(3)] show ?thesis by auto
qed

lemma forward_exit:
  assumes "forward env arg0 args h w = (Exit n, w', t)"
  shows "\<exists>e\<in>set t. kindOf e = KFatal"
  using assms
proof (cases rule: forward_cases)
  case (tf e)
  then show ?thesis by simp
next
  case (load t1 e)
  then show ?thesis by simp
next
  case (life t1 l t2 w2 w3 r2 ps)
  then have "r2 = Exit n" by auto
  with invoke_exit [of env l args w2 n w3 t2] life(1,5) show ?thesis by auto
qed

lemma forward_kinds:
  assumes "forward env arg0 args h w = (r, w', t)" "e \<in> set t"
  shows "kindOf e \<noteq> KHandle \<and> kindOf e \<noteq> KHasTerraformFiles \<and> kindOf e \<noteq> KReload"
  using assms(1)
proof (cases rule: forward_cases)
  case (tf m)
  with assms(2) show ?thesis by auto
next
  case (load t1 m)
  with assms(2) show ?thesis by auto
next
  case (life t1 l t2 w2 w3 r2 ps)
  from life(6,7) have p: "\<forall>e\<in>set ps. kindOf e = KPrint" by (cases "r2 = Done ()") simp_all
  from assms(2) life(1) consider "e = EvGetTerraform None" | "e \<in> set t1" | "e \<in> set t2" | "e \<in> set ps"
    by auto
  then show ?thesis
  proof cases
    case 1
    then show ?thesis by simp
  next
    case 2
    with life(2) show ?thesis by auto
  next
    case 3
    from invoke_kinds [OF life(5) 3] show ?thesis by auto
  next
    case 4
    with p show ?thesis by auto
  qed
qed

lemma upgrade_kinds:
  assumes "upgrade env w = (r, w', t)" "e \<in> set t"
  shows "kindOf e = KInfo \<or> kindOf e = KUpgrade \<or> kindOf e = KFatal"
proof (cases "semverValid env (buildVersion env)")
  case False
  with assms show ?thesis by (simp add: upgrade_def panic_def)
next
  case True
  obtain x w1 where c: "GetLatestVersion env w = (x, w1)" by (cases "GetLatestVersion env w")
  show ?thesis
  proof (cases x)
    case (Inl m)
    with assms True c show ?thesis
      by (auto simp add: upgrade_def call_def bnd_def FatalError_def)
  next
    case (Inr latest)
    obtain y w2 where d: "PerformUpgrade env latest w1 = (y, w2)"
      by (cases "PerformUpgrade env latest w1")
    from assms True c Inr d show ?thesis
      by (cases y; cases "newerThan env latest (buildVersion env)")
         (auto simp add: upgrade_def call_def bnd_def PrintInfo_def FatalError_def ret_def emits_def)
  qed
qed

lemma early_kinds:
  assumes "earlyCommand args" "main env arg0 args w = (r, w', t)" "e \<in> set t"
  shows "kindOf e = KInfo \<or> kindOf e = KUpgrade \<or> kindOf e = KFatal"
proof -
  from assms(1) obtain cmd rest where a: "args = cmd # rest"
    by (cases args) (simp_all add: earlyCommand_def)
  consider (c) "cmd = ''wheels-complete-upgrade''"
    | (v) "cmd \<noteq> ''wheels-complete-upgrade''" "cmd = ''wheels-version''"
    | (u) "cmd \<noteq> ''wheels-complete-upgrade''" "cmd \<noteq> ''wheels-version''" "cmd = ''wheels-upgrade''"
    using assms(1) a by (auto simp add: earlyCommand_def)
  then show ?thesis
  proof cases
    case c
    show ?thesis
    proof (cases rest)
      case Nil
      with assms(2,3) a c show ?thesis
        by (auto simp add: main_def PrintInfo_def emits_def bnd_def panic_def)
    next
      case (Cons path more)
      obtain y w1 where "CompleteUpgrade env path w = (y, w1)" by (cases "CompleteUpgrade env path w")
      with assms(2,3) a c Cons show ?thesis
        by (auto simp add: main_def PrintInfo_def emits_def bnd_def call_def ret_def)
    qed
  next
    case v
    with assms(2,3) a show ?thesis
      by (auto simp add: main_def PrintInfo_def emits_def)
  next
    case u
    with assms(2) a have "upgrade env w = (r, w', t)" by (simp add: main_def)
    from upgrade_kinds [OF this assms(3)] show ?thesis .
  qed
qed

lemma isTerraformCommand_iff:
  "isTerraformCommand args = (\<exists>a\<in>set args. a \<in> set knownTerraformCommands)"
  by (auto simp add: isTerraformCommand_def list_ex_iff)

lemma invokeTerraform_elim:
  assumes "invokeTerraform env ps args w = (r, w', tr)"
  obtains (pre) qs p rest e where "ps = qs @ p # rest" "r = Exit 1"
      "tr = befores (list_ex (\<lambda>arg. arg = ''init'') args) qs @
            [EvBeforeRun (GetName p) (list_ex (\<lambda>arg. arg = ''init'') args) (Some e),
             Fatal (''Could not start '' @ GetName p @ '': '' @ e)]"
    | (ok) x where "r = Done ()"
      "tr = befores (list_ex (\<lambda>arg. arg = ''init'') args) ps @ EvInvoke args x # afters x ps"
    | (post) x qs p rest pe where "ps = qs @ p # rest" "r = fst (finalizeFailure (GetName p) x)"
      "tr = befores (list_ex (\<lambda>arg. arg = ''init'') args) ps @ EvInvoke args x # afters x qs @
            EvAfterRun (GetName p) x (Some pe) # snd (finalizeFailure (GetName p) x)"
  using invokeTerraform_cases [OF assms]
  apply (elim disjE exE conjE)
    apply (erule (2) pre)
   apply (erule (1) ok)
  apply (erule (2) post)
  done

lemma nofatal_kind: "(\<forall>e. Fatal e \<notin> set t) = (\<forall>e\<in>set t. kindOf e \<noteq> KFatal)"
  using fatal_kind [of t] by blast

lemma suffix_help1: "suffix H (pre @ H)"
  by (simp add: suffix_def)

lemma showHelp_suffix:
  assumes "showHelp env arg0 w = (r, w', t)" "\<forall>e. Fatal e \<notin> set t"
  shows "r = Exit 1" and "suffix (pluginHelpLines env arg0) (pre @ t)"
    and "\<exists>p x. pre @ t = p @ [EvHasTerraform True, EvGetTerraform None, EvInvoke [] x] @
                               pluginHelpLines env arg0 \<or>
                pre @ t = p @ EvHasTerraform False # missingTerraformHelpLines env @
                               pluginHelpLines env arg0"
proof -
  show "r = Exit 1" by (rule showHelp_shown(1) [OF assms])
  from showHelp_shown(2) [OF assms]
  show "suffix (pluginHelpLines env arg0) (pre @ t)"
  proof
    assume "\<exists>x. t = [EvHasTerraform True, EvGetTerraform None, EvInvoke [] x] @ pluginHelpLines env arg0"
    then obtain x where "t = [EvHasTerraform True, EvGetTerraform None, EvInvoke [] x] @ pluginHelpLines env arg0" ..
    then have "pre @ t = (pre @ [EvHasTerraform True, EvGetTerraform None, EvInvoke [] x]) @ pluginHelpLines env arg0"
      by simp
    then show ?thesis by (simp only: suffix_help1)
  next
    assume "t = EvHasTerraform False # missingTerraformHelpLines env @ pluginHelpLines env arg0"
    then have "pre @ t = (pre @ EvHasTerraform False # missingTerraformHelpLines env) @ pluginHelpLines env arg0"
      by simp
    then show ?thesis by (simp only: suffix_help1)
  qed
  from showHelp_shown(2) [OF assms]
  show "\<exists>p x. pre @ t = p @ [EvHasTerraform True, EvGetTerraform None, EvInvoke [] x] @
                               pluginHelpLines env arg0 \<or>
                pre @ t = p @ EvHasTerraform False # missingTerraformHelpLines env @
                               pluginHelpLines env arg0"
    by blast
qed

lemma fatal_in: "Fatal e \<in> set t \<Longrightarrow> \<forall>e. Fatal e \<notin> set t \<Longrightarrow> P"
  by blast

lemma handle_routed:
  assumes m: "main env arg0 args w = (r, w', tr)"
    and hd: "EvHandle c a x \<in> set tr"
  obtains cwd h w3 t cmd where
    "tr = EvGetwd (Inr cwd) # EvOpenSandbox cwd None # EvHasTerraformFiles (Inr h) # t"
    "dispatch env cmd args h w3 = (r, w', t)"
proof (cases "earlyCommand args")
  case True
  from early_kinds [OF True m hd] show ?thesis by simp
next
  case False
  with m have run: "run env arg0 args w = (r, w', tr)" by (simp add: main_run)
  from run show ?thesis
  proof (cases rule: run_cases)
    case (getwd e)
    with hd show ?thesis by simp
  next
    case (sandbox cwd e)
    with hd show ?thesis by simp
  next
    case (files cwd e)
    with hd show ?thesis by simp
  next
    case (early cwd w2 t)
    with hd have "EvHandle c a x \<in> set t" by simp
    from showHelp_kinds [OF early(3) this] show ?thesis by simp
  next
    case (routed cwd h w3 t)
    with hd have ht: "EvHandle c a x \<in> set t" by simp
    from routed(3) show ?thesis
    proof (cases rule: route_cases)
      case flags
      from showHelp_kinds [OF flags(2) ht] show ?thesis by simp
    next
      case (plugin cmd)
      from routed(2) plugin(3) show ?thesis by (rule that)
    next
      case unknown
      from showHelp_kinds [OF unknown(4) ht] show ?thesis by simp
    next
      case passthrough
      from forward_kinds [OF passthrough(4) ht] show ?thesis by simp
    qed
  qed
qed

lemma filter_kind_none:
  "\<forall>e\<in>set xs. kindOf e \<noteq> k \<Longrightarrow> filter (\<lambda>e. kindOf e = k) xs = []"
  by (induction xs) auto

lemma befores_init: "befores True ps = map (\<lambda>p. EvBeforeRun (GetName p) True None) ps"
  by (simp add: befores_def)

lemma afters_kind: "\<forall>e\<in>set (afters x qs @ [EvAfterRun n x y]). kindOf e = KAfterRun"
  by (auto simp add: afters_def)

lemmas main_eval =
  main_def run_def route_def dispatch_def forward_def initialize_def loadPlugins_def
  invokeTerraform_def showHelp_def showPluginHelp_def showMissingTerraformHelp_def
  bnd_def call_def emits_def ret_def osExit_def FatalError_def PrintInfo_def panic_def
  exWorld_def exPlugin_def exCommand_def isTerraformCommand_def knownTerraformCommands_def
  HasPrefix_def

lemma pluginHelp_nofatal: "Fatal e \<notin> set (pluginHelpLines env arg0)"
  using kind_pluginHelp [of "Fatal e" env arg0] by auto

lemma ex_flags:
  "main (exWorld [exPlugin None None] None) ''tw'' [''-v''] False =
     (Exit 1, False,
      [EvGetwd (Inr ''/work''), EvOpenSandbox ''/work'' None, EvHasTerraformFiles (Inr False),
       EvHasTerraform True, EvGetTerraform None, EvInvoke [] None] @
      pluginHelpLines (exWorld [exPlugin None None] None) ''tw'')"
  by (simp add: main_eval)

lemma ex_foo:
  "main (exWorld [exPlugin None None] None) ''tw'' [''foo''] False =
     (Exit 1, False,
      [EvGetwd (Inr ''/work''), EvOpenSandbox ''/work'' None, EvHasTerraformFiles (Inr False),
       EvHasTerraform True, EvGetTerraform None, EvInvoke [] None] @
      pluginHelpLines (exWorld [exPlugin None None] None) ''tw'')"
  by (simp add: main_eval)

lemma ex_plan:
  "main (exWorld [exPlugin None None] None) ''tw'' [''plan''] True =
     (Done (), True,
      [EvGetwd (Inr ''/work''), EvOpenSandbox ''/work'' None, EvHasTerraformFiles (Inr True),
       EvGetTerraform None, EvIsUsed ''dcos-aws'' (Inr True), Info ''Using plugin dcos-aws'',
       EvBeforeRun ''dcos-aws'' False None, EvInvoke [''plan''] None,
       EvAfterRun ''dcos-aws'' None None])"
  by (simp add: main_eval)

lemma ex_foo_plan:
  "main (exWorld [exPlugin None None] None) ''tw'' [''foo'', ''plan''] True =
     (Done (), True,
      [EvGetwd (Inr ''/work''), EvOpenSandbox ''/work'' None, EvHasTerraformFiles (Inr True),
       EvGetTerraform None, EvIsUsed ''dcos-aws'' (Inr True), Info ''Using plugin dcos-aws'',
       EvBeforeRun ''dcos-aws'' False None, EvInvoke [''foo'', ''plan''] None,
       EvAfterRun ''dcos-aws'' None None])"
  by (simp add: main_eval)

lemma ex_add_first:
  "main (exWorld [exPlugin None None] None) ''tw'' [''add-aws-cluster'', ''x''] False =
     (Done (), True,
      [EvGetwd (Inr ''/work''), EvOpenSandbox ''/work'' None, EvHasTerraformFiles (Inr False),
       EvGetTerraform None, EvHandle ''add-aws-cluster'' [''x''] None,
       EvHasTerraformFiles (Inr True),
       Info ''Terraform project created, initializing now'', EvReload None,
       EvIsUsed ''dcos-aws'' (Inr True), Info ''Using plugin dcos-aws'',
       EvBeforeRun ''dcos-aws'' True None, EvInvoke [''init''] None,
       EvAfterRun ''dcos-aws'' None None])"
  by (simp add: main_eval)

lemma ex_add_again:
  "main (exWorld [exPlugin None None] None) ''tw'' [''add-aws-cluster'', ''x''] True =
     (Done (), True,
      [EvGetwd (Inr ''/work''), EvOpenSandbox ''/work'' None, EvHasTerraformFiles (Inr True),
       EvGetTerraform None, EvHandle ''add-aws-cluster'' [''x''] None,
       EvHasTerraformFiles (Inr True)])"
  by (simp add: main_eval)

section \<open>The claims on the router and the lifecycle\<close>

text \<open>
  Claim C3, as amended. Take a run of \<open>main\<close> whose first argument is none of the
  \<open>wheels\<close> commands, in which no call failed fatally, and in which no argument after the
  first contains \<open>help\<close>. The run ends in help mode, exit status 1 after the listing of
  \<open>showPluginHelp\<close>, exactly when there is no argument, or an argument contains \<open>help\<close>,
  or every argument starts with \<open>-\<close>, or the command name is the command of no plugin
  and no argument is a known terraform command. In help mode the listing comes after
  terraform's own help (a run of terraform with no arguments) or, without terraform, the
  notice that it is missing; the listing has one line for every command of every plugin,
  name and description, in the order of the registry.
\<close>

theorem help_mode:
  assumes m: "main env arg0 args w = (r, w', tr)"
    and ne: "\<not> earlyCommand args"
    and nf: "\<forall>e. Fatal e \<notin> set tr"
    and later: "\<forall>a\<in>set (tl args). \<not> Contains a ''help''"
  shows "((r = Exit 1 \<and> suffix (pluginHelpLines env arg0) tr) =
          (args = [] \<or> (\<exists>a\<in>set args. Contains a ''help'') \<or> (\<forall>a\<in>set args. HasPrefix a ''-'') \<or>
           (findPluginCommand (plugins env) (snd (scanCommand args 1)) = None \<and>
            \<not> (\<exists>a\<in>set args. a \<in> set knownTerraformCommands)))) \<and>
         (r = Exit 1 \<and> suffix (pluginHelpLines env arg0) tr \<longrightarrow>
            (\<exists>p x. tr = p @ [EvHasTerraform True, EvGetTerraform None, EvInvoke [] x] @
                            pluginHelpLines env arg0 \<or>
                   tr = p @ EvHasTerraform False # missingTerraformHelpLines env @
                            pluginHelpLines env arg0)) \<and>
         pluginHelpLines env arg0 =
           [Print [],
            Print ''DC/OS Commands:'',
            Print (''    '' @ pad18 ''wheels-version'' @ '' Check the version of '' @ arg0),
            Print (''    '' @ pad18 ''wheels-upgrade'' @ '' Upgrade to the latest version of '' @ arg0)] @
           concat (map (\<lambda>plugin. map (\<lambda>cmd. Print (''    '' @ pad18 (cmdName cmd) @ '' '' @
                                                     cmdDescription cmd))
                                      (GetCommands plugin))
                       (plugins env))"
proof -
  define HM where "HM = (r = Exit 1 \<and> suffix (pluginHelpLines env arg0) tr)"
  define C1 where "C1 = (args = [] \<or> (\<exists>a\<in>set args. Contains a ''help''))"
  define C2 where "C2 = (\<forall>a\<in>set args. HasPrefix a ''-'')"
  define C3 where "C3 = (findPluginCommand (plugins env) (snd (scanCommand args 1)) = None \<and>
            \<not> (\<exists>a\<in>set args. a \<in> set knownTerraformCommands))"
  define S where "S = (\<exists>p x. tr = p @ [EvHasTerraform True, EvGetTerraform None, EvInvoke [] x] @
                            pluginHelpLines env arg0 \<or>
                   tr = p @ EvHasTerraform False # missingTerraformHelpLines env @
                            pluginHelpLines env arg0)"
  have c1: "C1 = (args = [] \<or> Contains (hd args) ''help'')"
    using later unfolding C1_def by (cases args) auto
  have c2: "C2 = list_all (\<lambda>a. HasPrefix a ''-'') args"
    by (simp add: C2_def list_all_iff)
  from m ne have run: "run env arg0 args w = (r, w', tr)" by (simp add: main_run)
  have main: "(HM = (C1 \<or> C2 \<or> C3)) \<and> (HM \<longrightarrow> S)"
    using run
  proof (cases rule: run_cases)
    case (getwd e)
    then have "Fatal e \<in> set tr" by simp
    then show ?thesis using nf by (rule fatal_in)
  next
    case (sandbox cwd e)
    then have "Fatal e \<in> set tr" by simp
    then show ?thesis using nf by (rule fatal_in)
  next
    case (files cwd e)
    then have "Fatal e \<in> set tr" by simp
    then show ?thesis using nf by (rule fatal_in)
  next
    case (early cwd w2 t)
    from nf early(2) have nft: "\<forall>e. Fatal e \<notin> set t" by simp
    note sh = showHelp_suffix(1) [OF early(3) nft]
      showHelp_suffix(2,3) [OF early(3) nft, where pre = "[EvGetwd (Inr cwd), EvOpenSandbox cwd None]"]
    from sh early(2) have "HM" "S" by (simp_all add: HM_def S_def)
    moreover from early(1) c1 have "C1" by simp
    ultimately show ?thesis by simp
  next
    case (routed cwd h w3 t)
    from nf routed(2) have nft: "\<forall>e. Fatal e \<notin> set t" by simp
    from routed(1) c1 have n1: "\<not> C1" by simp
    have ex: "r = Exit 1 \<Longrightarrow> \<exists>e\<in>set t. kindOf e = KFatal \<Longrightarrow> False"
      using nft by (simp add: nofatal_kind)
    from routed(3) show ?thesis
    proof (cases rule: route_cases)
      case flags
      note sh = showHelp_suffix(1) [OF flags(2) nft]
      showHelp_suffix(2,3) [OF flags(2) nft, where pre = "[EvGetwd (Inr cwd), EvOpenSandbox cwd None, EvHasTerraformFiles (Inr h)]"]
      from sh routed(2) have "HM" "S" by (simp_all add: HM_def S_def)
      moreover from flags(1) c2 have "C2" by simp
      ultimately show ?thesis by simp
    next
      case (plugin cmd)
      have "\<not> HM"
      proof
        assume "HM"
        then have "r = Exit 1" by (simp add: HM_def)
        with plugin(3) have "dispatch env cmd args h w3 = (Exit 1, w', t)" by simp
        from dispatch_exit [OF this] nft show False by (simp add: nofatal_kind)
      qed
      moreover from plugin(1) c2 have "\<not> C2" by simp
      moreover from plugin(2) have "\<not> C3" by (simp add: C3_def)
      ultimately show ?thesis using n1 by simp
    next
      case unknown
      note sh = showHelp_suffix(1) [OF unknown(4) nft]
      showHelp_suffix(2,3) [OF unknown(4) nft, where pre = "[EvGetwd (Inr cwd), EvOpenSandbox cwd None, EvHasTerraformFiles (Inr h)]"]
      from sh routed(2) have "HM" "S" by (simp_all add: HM_def S_def)
      moreover from unknown(2,3) have "C3" by (simp add: C3_def isTerraformCommand_iff)
      ultimately show ?thesis by simp
    next
      case passthrough
      have "\<not> HM"
      proof
        assume "HM"
        then have "r = Exit 1" by (simp add: HM_def)
        with passthrough(4) have "forward env arg0 args h w3 = (Exit 1, w', t)" by simp
        from forward_exit [OF this] nft show False by (simp add: nofatal_kind)
      qed
      moreover from passthrough(1) c2 have "\<not> C2" by simp
      moreover from passthrough(3) have "\<not> C3" by (simp add: C3_def isTerraformCommand_iff)
      ultimately show ?thesis using n1 by simp
    qed
  qed
  have lines: "pluginHelpLines env arg0 =
           [Print [],
            Print ''DC/OS Commands:'',
            Print (''    '' @ pad18 ''wheels-version'' @ '' Check the version of '' @ arg0),
            Print (''    '' @ pad18 ''wheels-upgrade'' @ '' Upgrade to the latest version of '' @ arg0)] @
           concat (map (\<lambda>plugin. map (\<lambda>cmd. Print (''    '' @ pad18 (cmdName cmd) @ '' '' @
                                                     cmdDescription cmd))
                                      (GetCommands plugin))
                       (plugins env))"
    unfolding pluginHelpLines_def commandLine_def ..
  from main have a: "HM = (C1 \<or> C2 \<or> C3)" and b: "HM \<longrightarrow> S" by simp_all
  show ?thesis
    apply (intro conjI)
      apply (rule a [unfolded HM_def C1_def C2_def C3_def disj_assoc])
     apply (rule b [unfolded HM_def S_def])
    apply (rule lines)
    done
qed

text \<open>
  The theorem at the one argument \<open>-v\<close>.
\<close>

theorem help_mode_witness:
  "fst (main (exWorld [exPlugin None None] None) ''tw'' [''-v''] False) = Exit 1 \<and>
   suffix (pluginHelpLines (exWorld [exPlugin None None] None) ''tw'')
     (snd (snd (main (exWorld [exPlugin None None] None) ''tw'' [''-v''] False)))"
proof -
  have n1: "\<not> earlyCommand [''-v'']" by (simp add: earlyCommand_def)
  have n2: "\<forall>e. Fatal e \<notin> set ([EvGetwd (Inr ''/work''), EvOpenSandbox ''/work'' None,
       EvHasTerraformFiles (Inr False), EvHasTerraform True, EvGetTerraform None, EvInvoke [] None] @
      pluginHelpLines (exWorld [exPlugin None None] None) ''tw'')"
    by (simp add: pluginHelp_nofatal)
  have n3: "\<forall>a\<in>set (tl [''-v'']). \<not> Contains a ''help''" by simp
  have c: "\<forall>a\<in>set [''-v'']. HasPrefix a ''-''" by (simp add: HasPrefix_def)
  from help_mode [OF ex_flags n1 n2 n3, THEN conjunct1] c
  have "Exit 1 = (Exit 1 :: unit res) \<and>
        suffix (pluginHelpLines (exWorld [exPlugin None None] None) ''tw'')
          ([EvGetwd (Inr ''/work''), EvOpenSandbox ''/work'' None,
       EvHasTerraformFiles (Inr False), EvHasTerraform True, EvGetTerraform None, EvInvoke [] None] @
      pluginHelpLines (exWorld [exPlugin None None] None) ''tw'')"
    by blast
  then show ?thesis by (simp only: ex_flags fst_conv snd_conv)
qed

text \<open>
  Claim C3 as it is written fails at the one argument \<open>foo\<close>: the run ends in help mode,
  and the vector is not empty, no argument contains \<open>help\<close>, and an argument lacks the
  prefix \<open>-\<close>.
\<close>

theorem help_mode_counterexample:
  "fst (main (exWorld [exPlugin None None] None) ''tw'' [''foo''] False) = Exit 1 \<and>
   suffix (pluginHelpLines (exWorld [exPlugin None None] None) ''tw'')
     (snd (snd (main (exWorld [exPlugin None None] None) ''tw'' [''foo''] False))) \<and>
   [''foo''] \<noteq> [] \<and> \<not> Contains ''foo'' ''help'' \<and> \<not> HasPrefix ''foo'' ''-''"
  by (simp add: ex_foo suffix_help1 HasPrefix_def del: append.simps)

text \<open>
  Claim C4, as amended. Take a run of \<open>main\<close> with an argument that does not start with
  \<open>-\<close>, whose first argument is none of the \<open>wheels\<close> commands and does not contain
  \<open>help\<close>, and in which no call failed fatally. The command name the scan finds is the
  first argument that does not start with \<open>-\<close>; and when it is the command of no
  plugin, terraform is run with all the arguments exactly when some argument is a known
  terraform command.
\<close>

theorem passthrough:
  assumes m: "main env arg0 args w = (r, w', tr)"
    and ne: "\<not> earlyCommand args"
    and nh: "\<not> Contains (hd args) ''help''"
    and tok: "\<exists>a\<in>set args. \<not> HasPrefix a ''-''"
    and nf: "\<forall>e. Fatal e \<notin> set tr"
  shows "find (\<lambda>a. \<not> HasPrefix a ''-'') args = Some (snd (scanCommand args 1)) \<and>
         (findPluginCommand (plugins env) (snd (scanCommand args 1)) = None \<longrightarrow>
            ((\<exists>x. EvInvoke args x \<in> set tr) = (\<exists>a\<in>set args. a \<in> set knownTerraformCommands)))"
proof -
  from tok have nall: "\<not> list_all (\<lambda>a. HasPrefix a ''-'') args" by (simp add: list_all_iff)
  from tok have nn: "args \<noteq> []" by auto
  have first: "find (\<lambda>a. \<not> HasPrefix a ''-'') args = Some (snd (scanCommand args 1))"
    by (rule scan_find [OF nall])
  from m ne have run: "run env arg0 args w = (r, w', tr)" by (simp add: main_run)
  have second: "(\<exists>x. EvInvoke args x \<in> set tr) = (\<exists>a\<in>set args. a \<in> set knownTerraformCommands)"
    if none: "findPluginCommand (plugins env) (snd (scanCommand args 1)) = None"
    using run
  proof (cases rule: run_cases)
    case (getwd e)
    then have "Fatal e \<in> set tr" by simp
    then show ?thesis using nf by (rule fatal_in)
  next
    case (sandbox cwd e)
    then have "Fatal e \<in> set tr" by simp
    then show ?thesis using nf by (rule fatal_in)
  next
    case (files cwd e)
    then have "Fatal e \<in> set tr" by simp
    then show ?thesis using nf by (rule fatal_in)
  next
    case (early cwd w2 t)
    with nn nh show ?thesis by simp
  next
    case (routed cwd h w3 t)
    from nf routed(2) have nft: "\<forall>e. Fatal e \<notin> set t" by simp
    have tr_t: "(\<exists>x. EvInvoke args x \<in> set tr) = (\<exists>x. EvInvoke args x \<in> set t)"
      using routed(2) by simp
    from routed(3) show ?thesis
    proof (cases rule: route_cases)
      case flags
      with nall show ?thesis by simp
    next
      case (plugin cmd)
      with none show ?thesis by simp
    next
      case unknown
      have "\<not> (\<exists>x. EvInvoke args x \<in> set t)"
      proof
        assume "\<exists>x. EvInvoke args x \<in> set t"
        then obtain x where x: "EvInvoke args x \<in> set t" ..
        from showHelp_kinds [OF unknown(4) x] nn show False by simp
      qed
      with unknown(3) tr_t show ?thesis by (simp add: isTerraformCommand_iff)
    next
      case passthrough
      have "\<exists>x. EvInvoke args x \<in> set t"
        using passthrough(4)
      proof (cases rule: forward_cases)
        case (tf e)
        then have "Fatal e \<in> set t" by simp
        then show ?thesis using nft by (rule fatal_in)
      next
        case (load t1 e)
        then have "Fatal e \<in> set t" by simp
        then show ?thesis using nft by (rule fatal_in)
      next
        case (life t1 l t2 w2 w4 r2 ps)
        from nft life(1) have "\<forall>e. Fatal e \<notin> set t2" by simp
        from invoke_nofatal [OF life(5) this] obtain x where "EvInvoke args x \<in> set t2" ..
        with life(1) have "EvInvoke args x \<in> set t" by simp
        then show ?thesis ..
      qed
      with passthrough(3) tr_t show ?thesis by (simp add: isTerraformCommand_iff)
    qed
  qed
  from first second show ?thesis by blast
qed

text \<open>
  The theorem at the one argument \<open>plan\<close>.
\<close>

theorem passthrough_witness:
  "\<exists>x. EvInvoke [''plan''] x \<in> set (snd (snd (main (exWorld [exPlugin None None] None) ''tw'' [''plan''] True)))"
proof -
  have n1: "\<not> earlyCommand [''plan'']" by (simp add: earlyCommand_def)
  have n2: "\<not> Contains (hd [''plan'']) ''help''" by simp
  have n3: "\<exists>a\<in>set [''plan'']. \<not> HasPrefix a ''-''" by (simp add: HasPrefix_def)
  have n4: "\<forall>e. Fatal e \<notin> set [EvGetwd (Inr ''/work''), EvOpenSandbox ''/work'' None,
       EvHasTerraformFiles (Inr True),
       EvGetTerraform None, EvIsUsed ''dcos-aws'' (Inr True), Info ''Using plugin dcos-aws'',
       EvBeforeRun ''dcos-aws'' False None, EvInvoke [''plan''] None,
       EvAfterRun ''dcos-aws'' None None]"
    by simp
  have fp: "findPluginCommand (plugins (exWorld [exPlugin None None] None))
              (snd (scanCommand [''plan''] 1)) = None"
    by (simp add: exWorld_def exPlugin_def exCommand_def HasPrefix_def)
  have kn: "\<exists>a\<in>set [''plan'']. a \<in> set knownTerraformCommands"
    by (simp add: knownTerraformCommands_def)
  from passthrough [OF ex_plan n1 n2 n3 n4, THEN conjunct2] fp kn
  have "\<exists>x. EvInvoke [''plan''] x \<in> set [EvGetwd (Inr ''/work''), EvOpenSandbox ''/work'' None,
       EvHasTerraformFiles (Inr True),
       EvGetTerraform None, EvIsUsed ''dcos-aws'' (Inr True), Info ''Using plugin dcos-aws'',
       EvBeforeRun ''dcos-aws'' False None, EvInvoke [''plan''] None,
       EvAfterRun ''dcos-aws'' None None]"
    by blast
  then show ?thesis by (simp only: ex_plan snd_conv)
qed

text \<open>
  Claim C4 as it is written fails at the arguments \<open>foo plan\<close>: the command name is
  \<open>foo\<close>, no plugin has it, it is no known terraform command, and terraform is run with
  both arguments.
\<close>

theorem passthrough_counterexample:
  "find (\<lambda>a. \<not> HasPrefix a ''-'') [''foo'', ''plan''] = Some ''foo'' \<and>
   snd (scanCommand [''foo'', ''plan''] 1) = ''foo'' \<and>
   findPluginCommand (plugins (exWorld [exPlugin None None] None)) ''foo'' = None \<and>
   ''foo'' \<notin> set knownTerraformCommands \<and>
   EvInvoke [''foo'', ''plan''] None \<in>
     set (snd (snd (main (exWorld [exPlugin None None] None) ''tw'' [''foo'', ''plan''] True)))"
proof (intro conjI)
  show "find (\<lambda>a. \<not> HasPrefix a ''-'') [''foo'', ''plan''] = Some ''foo''"
    by (simp add: HasPrefix_def)
  show "snd (scanCommand [''foo'', ''plan''] 1) = ''foo''"
    by (simp add: HasPrefix_def)
  show "findPluginCommand (plugins (exWorld [exPlugin None None] None)) ''foo'' = None"
    by (simp add: exWorld_def exPlugin_def exCommand_def)
  show "''foo'' \<notin> set knownTerraformCommands"
    by (simp add: knownTerraformCommands_def)
  show "EvInvoke [''foo'', ''plan''] None \<in>
     set (snd (snd (main (exWorld [exPlugin None None] None) ''tw'' [''foo'', ''plan''] True)))"
    by (simp add: ex_foo_plan)
qed

text \<open>
  Claim C5, at its failing input. With the arguments \<open>-v add-aws-cluster x\<close> the command
  name is \<open>add-aws-cluster\<close>, the command of the example plugin, and its handler is
  called with \<open>os.Args[2:]\<close>, the arguments \<open>add-aws-cluster x\<close>: the name token is
  among them, where the claim has the arguments after it, \<open>x\<close> alone.
\<close>

theorem handler_arguments:
  "snd (scanCommand [''-v'', ''add-aws-cluster'', ''x''] 1) = ''add-aws-cluster'' \<and>
   cmdName exCommand = ''add-aws-cluster'' \<and>
   main (exWorld [exPlugin None None] None) ''tw'' [''-v'', ''add-aws-cluster'', ''x''] True =
     (Done (), True,
      [EvGetwd (Inr ''/work''), EvOpenSandbox ''/work'' None, EvHasTerraformFiles (Inr True),
       EvGetTerraform None, EvHandle ''add-aws-cluster'' [''add-aws-cluster'', ''x''] None,
       EvHasTerraformFiles (Inr True)])"
  by (simp add: main_eval)

text \<open>
  Claim C7. When a pre-hook of a lifecycle run returned an error, the run ended in a fatal
  error whose message names that plugin and carries the error, terraform was not invoked,
  and no post-hook ran, of no plugin.
\<close>

theorem prehook_failure:
  assumes "invokeTerraform env ps args w = (r, w', tr)"
    and "EvBeforeRun n i (Some e) \<in> set tr"
  shows "r = Exit 1 \<and> (\<exists>p\<in>set ps. GetName p = n) \<and>
         last tr = Fatal (''Could not start '' @ n @ '': '' @ e) \<and>
         (\<forall>a x. EvInvoke a x \<notin> set tr) \<and> (\<forall>m x y. EvAfterRun m x y \<notin> set tr)"
proof -
  define j where "j = list_ex (\<lambda>arg. arg = ''init'') args"
  have nb: "EvBeforeRun n i (Some e) \<notin> set (befores j qs)" for qs :: "'a plugin list"
    by (auto simp add: befores_def)
  have na: "EvBeforeRun n i (Some e) \<notin> set (afters x qs)" for x and qs :: "'a plugin list"
    by (auto simp add: afters_def)
  have nf: "EvBeforeRun n i (Some e) \<notin> set (snd (finalizeFailure m x))" for m x
    by (auto simp add: finalizeFailure_def split: option.splits)
  have ni: "EvInvoke a x \<notin> set (befores j qs)" for a x and qs :: "'a plugin list"
    by (auto simp add: befores_def)
  have nr: "EvAfterRun m x y \<notin> set (befores j qs)" for m x y and qs :: "'a plugin list"
    by (auto simp add: befores_def)
  from assms(1) show ?thesis
  proof (cases rule: invokeTerraform_elim)
    case (pre qs p rest e')
    from assms(2) pre(3) nb [of qs] have "n = GetName p" "e = e'"
      by (simp_all add: j_def)
    with pre ni nr show ?thesis
      by (simp add: j_def)
  next
    case (ok x)
    with assms(2) nb [of ps] na [of x ps] show ?thesis by (simp add: j_def)
  next
    case (post x qs p rest pe)
    with assms(2) nb [of ps] na [of x qs] nf [of "GetName p" x] show ?thesis by (simp add: j_def)
  qed
qed

text \<open>
  The theorem at the example plugin with a pre-hook that fails.
\<close>

theorem prehook_failure_witness:
  "fst (invokeTerraform (exWorld [] None) [exPlugin (Some ''no agent'') None] [''plan''] True) = Exit 1 \<and>
   last (snd (snd (invokeTerraform (exWorld [] None) [exPlugin (Some ''no agent'') None] [''plan''] True))) =
     Fatal ''Could not start dcos-aws: no agent''"
  using prehook_failure [of "exWorld [] None" "[exPlugin (Some ''no agent'') None]" "[''plan'']" True
      "Exit 1" True
      "[EvBeforeRun ''dcos-aws'' False (Some ''no agent''), Fatal ''Could not start dcos-aws: no agent'']"
      "''dcos-aws''" False "''no agent''"]
  by (simp add: invokeTerraform_def exPlugin_def bnd_def call_def FatalError_def)

text \<open>
  Claim C8, at its failing inputs. A post-hook returns the error \<open>boom\<close>. After a
  terraform run that failed with \<open>exit status 1\<close>, the fatal message names the plugin and
  carries the error of terraform, not \<open>boom\<close>. After a terraform run that succeeded, the
  process panics on the nil error and prints no fatal message.
\<close>

theorem posthook_failure:
  "invokeTerraform (exWorld [] (Some ''exit status 1'')) [exPlugin None (Some ''boom'')] [''plan''] True =
     (Exit 1, True,
      [EvBeforeRun ''dcos-aws'' False None, EvInvoke [''plan''] (Some ''exit status 1''),
       EvAfterRun ''dcos-aws'' (Some ''exit status 1'') (Some ''boom''),
       Fatal ''Could not finalize dcos-aws: exit status 1'']) \<and>
   \<not> Contains ''Could not finalize dcos-aws: exit status 1'' ''boom'' \<and>
   invokeTerraform (exWorld [] None) [exPlugin None (Some ''boom'')] [''plan''] True =
     (Panic ''runtime error: invalid memory address or nil pointer dereference'', True,
      [EvBeforeRun ''dcos-aws'' False None, EvInvoke [''plan''] None,
       EvAfterRun ''dcos-aws'' None (Some ''boom'')])"
  by (simp add: main_eval)

text \<open>
  Claim C9. Take a run of \<open>main\<close> in which the handler of a plugin's command was called
  and returned no error. When the sandbox was asked twice for terraform files, answered no
  and then yes, and no call failed fatally, then after the reload of the project come the
  \<open>IsUsed\<close> calls, the pre-hooks of the plugins in use with \<open>isInit\<close> true, one run of
  terraform with \<open>init\<close>, and post-hooks (all of them, of the same plugins, when the run
  returns); nothing before the reload runs terraform or a hook, and the run of \<open>init\<close>
  is the only run of terraform. When the first answer of the sandbox was yes, the run has
  no run of terraform and no reload.
\<close>

theorem first_scaffold:
  assumes m: "main env arg0 args w = (r, w', tr)"
    and hd: "EvHandle c a None \<in> set tr"
  shows "(filter (\<lambda>e. kindOf e = KHasTerraformFiles) tr =
            [EvHasTerraformFiles (Inr False), EvHasTerraformFiles (Inr True)] \<and>
          (\<forall>e. Fatal e \<notin> set tr) \<longrightarrow>
            (\<exists>pre load ps x post.
               tr = pre @ Info ''Terraform project created, initializing now'' # EvReload None # load @
                    map (\<lambda>p. EvBeforeRun (GetName p) True None) ps @ EvInvoke [''init''] x # post \<and>
               (\<forall>e\<in>set pre. kindOf e \<noteq> KInvoke \<and> kindOf e \<noteq> KReload \<and>
                            kindOf e \<noteq> KBeforeRun \<and> kindOf e \<noteq> KAfterRun) \<and>
               (\<forall>e\<in>set load. kindOf e = KIsUsed \<or> kindOf e = KInfo) \<and>
               set ps \<subseteq> set (plugins env) \<and> map GetName ps = usedNames load \<and>
               (\<forall>e\<in>set post. kindOf e = KAfterRun) \<and>
               (r = Done () \<longrightarrow> post = map (\<lambda>p. EvAfterRun (GetName p) x None) ps) \<and>
               filter (\<lambda>e. kindOf e = KInvoke) tr = [EvInvoke [''init''] x])) \<and>
         ((\<exists>rest. filter (\<lambda>e. kindOf e = KHasTerraformFiles) tr =
                     EvHasTerraformFiles (Inr True) # rest) \<longrightarrow>
            (\<forall>e\<in>set tr. kindOf e \<noteq> KInvoke \<and> kindOf e \<noteq> KReload))"
proof -
  define A where "A = (\<exists>pre load ps x post.
               tr = pre @ Info ''Terraform project created, initializing now'' # EvReload None # load @
                    map (\<lambda>p. EvBeforeRun (GetName p) True None) ps @ EvInvoke [''init''] x # post \<and>
               (\<forall>e\<in>set pre. kindOf e \<noteq> KInvoke \<and> kindOf e \<noteq> KReload \<and>
                            kindOf e \<noteq> KBeforeRun \<and> kindOf e \<noteq> KAfterRun) \<and>
               (\<forall>e\<in>set load. kindOf e = KIsUsed \<or> kindOf e = KInfo) \<and>
               set ps \<subseteq> set (plugins env) \<and> map GetName ps = usedNames load \<and>
               (\<forall>e\<in>set post. kindOf e = KAfterRun) \<and>
               (r = Done () \<longrightarrow> post = map (\<lambda>p. EvAfterRun (GetName p) x None) ps) \<and>
               filter (\<lambda>e. kindOf e = KInvoke) tr = [EvInvoke [''init''] x])"
  define B where "B = (\<forall>e\<in>set tr. kindOf e \<noteq> KInvoke \<and> kindOf e \<noteq> KReload)"
  define F where "F = filter (\<lambda>e. kindOf e = KHasTerraformFiles) tr"
  define NF where "NF = (\<forall>e. Fatal e \<notin> set tr)"
  from m hd obtain cwd h w3 t cmd where
    tr: "tr = EvGetwd (Inr cwd) # EvOpenSandbox cwd None # EvHasTerraformFiles (Inr h) # t"
    and d: "dispatch env cmd args h w3 = (r, w', t)"
    by (rule handle_routed)
  have "(F = [EvHasTerraformFiles (Inr False), EvHasTerraformFiles (Inr True)] \<and> NF \<longrightarrow> A) \<and>
        ((\<exists>rest. F = EvHasTerraformFiles (Inr True) # rest) \<longrightarrow> B)"
    using d
  proof (cases rule: dispatch_cases)
    case (tf e)
    with tr show ?thesis by (simp add: B_def NF_def)
  next
    case (handler e)
    with tr show ?thesis by (simp add: B_def NF_def)
  next
    case (files e)
    with tr show ?thesis by (simp add: B_def NF_def)
  next
    case (finished now)
    with tr show ?thesis by (auto simp add: B_def F_def)
  next
    case (init t1 w1)
    have nb: "\<not> (\<exists>rest. F = EvHasTerraformFiles (Inr True) # rest)"
      using init(1) tr by (simp add: F_def)
    have "A" if nf: "NF"
      using init(3)
    proof (cases rule: initialize_cases)
      case (reload e)
      with tr init(2) have "Fatal e \<in> set tr" by simp
      then show ?thesis using nf [unfolded NF_def] by (rule fatal_in)
    next
      case (load t2 e)
      with tr init(2) have "Fatal e \<in> set tr" by simp
      then show ?thesis using nf [unfolded NF_def] by (rule fatal_in)
    next
      case (life t2 l t3 w2)
      define pre where "pre = [EvGetwd (Inr cwd), EvOpenSandbox cwd None, EvHasTerraformFiles (Inr h),
          EvGetTerraform None, EvHandle (cmdName cmd) (drop 1 args) None,
          EvHasTerraformFiles (Inr True)]"
      have e0: "tr = pre @ Info ''Terraform project created, initializing now'' # EvReload None # t2 @ t3"
        using tr init(2) life(1) by (simp add: pre_def infoInit_def)
      have e2: "\<forall>e\<in>set pre. kindOf e \<noteq> KInvoke \<and> kindOf e \<noteq> KReload \<and>
                            kindOf e \<noteq> KBeforeRun \<and> kindOf e \<noteq> KAfterRun"
        by (simp add: pre_def)
      have f1: "filter (\<lambda>e. kindOf e = KInvoke) pre = []"
        by (simp add: pre_def)
      have f2: "filter (\<lambda>e. kindOf e = KInvoke) t2 = []"
        using life(2) by (intro filter_kind_none) auto
      have f3: "filter (\<lambda>e. kindOf e = KInvoke) (map (\<lambda>p. EvBeforeRun (GetName p) True None) l) = []"
        by (intro filter_kind_none) auto
      have shape: "\<exists>x post. t3 = map (\<lambda>p. EvBeforeRun (GetName p) True None) l @ EvInvoke [''init''] x # post \<and>
          (\<forall>e\<in>set post. kindOf e = KAfterRun) \<and>
          (r = Done () \<longrightarrow> post = map (\<lambda>p. EvAfterRun (GetName p) x None) l)"
        using life(5)
      proof (cases rule: invokeTerraform_elim)
        case (pre qs p rest e)
        with e0 have "Fatal (''Could not start '' @ GetName p @ '': '' @ e) \<in> set tr" by simp
        then show ?thesis using nf [unfolded NF_def] by (rule fatal_in)
      next
        case (ok x)
        then have "t3 = map (\<lambda>p. EvBeforeRun (GetName p) True None) l @ EvInvoke [''init''] x # afters x l \<and>
          (\<forall>e\<in>set (afters x l). kindOf e = KAfterRun) \<and>
          (r = Done () \<longrightarrow> afters x l = map (\<lambda>p. EvAfterRun (GetName p) x None) l)"
          by (auto simp add: befores_def afters_def)
        then show ?thesis by blast
      next
        case (post x qs p rest pe)
        have xn: "x = None"
        proof (cases x)
          case (Some e)
          with post(3) e0 have "Fatal (''Could not finalize '' @ GetName p @ '': '' @ e) \<in> set tr"
            by (simp add: finalizeFailure_def)
          then show ?thesis using nf [unfolded NF_def] by (rule fatal_in)
        qed simp
        with post(2) have rn: "r \<noteq> Done ()" by (simp add: finalizeFailure_def)
        from post(3) xn
        have "t3 = map (\<lambda>p. EvBeforeRun (GetName p) True None) l @ EvInvoke [''init''] x #
                   (afters x qs @ [EvAfterRun (GetName p) x (Some pe)])"
          by (simp add: finalizeFailure_def befores_def)
        with afters_kind [of x qs "GetName p" "Some pe"] rn show ?thesis by blast
      qed
      then obtain x post where
        t3: "t3 = map (\<lambda>p. EvBeforeRun (GetName p) True None) l @ EvInvoke [''init''] x # post"
        and pk: "\<forall>e\<in>set post. kindOf e = KAfterRun"
        and pd: "r = Done () \<longrightarrow> post = map (\<lambda>p. EvAfterRun (GetName p) x None) l"
        by blast
      have f4: "filter (\<lambda>e. kindOf e = KInvoke) post = []"
        using pk by (intro filter_kind_none) auto
      have e1: "tr = pre @ Info ''Terraform project created, initializing now'' # EvReload None # t2 @
                    map (\<lambda>p. EvBeforeRun (GetName p) True None) l @ EvInvoke [''init''] x # post"
        using e0 t3 by simp
      have e3: "filter (\<lambda>e. kindOf e = KInvoke) tr = [EvInvoke [''init''] x]"
        unfolding e1 by (simp add: f1 f2 f3 f4 del: map_map)
      from e1 e2 e3 pk pd life(2,3,4) show ?thesis
        unfolding A_def by blast
    qed
    with nb show ?thesis by simp
  qed
  then show ?thesis
    unfolding A_def B_def F_def NF_def .
qed

text \<open>
  The theorem at the command \<open>add-aws-cluster\<close> of the example plugin, in a directory
  without terraform files and in one with them.
\<close>

theorem first_scaffold_witness:
  "(\<exists>x. filter (\<lambda>e. kindOf e = KInvoke)
          (snd (snd (main (exWorld [exPlugin None None] None) ''tw'' [''add-aws-cluster'', ''x''] False))) =
        [EvInvoke [''init''] x]) \<and>
   filter (\<lambda>e. kindOf e = KInvoke)
     (snd (snd (main (exWorld [exPlugin None None] None) ''tw'' [''add-aws-cluster'', ''x''] True))) = [] \<and>
   filter (\<lambda>e. kindOf e = KReload)
     (snd (snd (main (exWorld [exPlugin None None] None) ''tw'' [''add-aws-cluster'', ''x''] True))) = []"
proof -
  have a: "EvHandle ''add-aws-cluster'' [''x''] None \<in>
      set [EvGetwd (Inr ''/work''), EvOpenSandbox ''/work'' None, EvHasTerraformFiles (Inr False),
       EvGetTerraform None, EvHandle ''add-aws-cluster'' [''x''] None,
       EvHasTerraformFiles (Inr True),
       Info ''Terraform project created, initializing now'', EvReload None,
       EvIsUsed ''dcos-aws'' (Inr True), Info ''Using plugin dcos-aws'',
       EvBeforeRun ''dcos-aws'' True None, EvInvoke [''init''] None,
       EvAfterRun ''dcos-aws'' None None]"
    by simp
  have b: "EvHandle ''add-aws-cluster'' [''x''] None \<in>
      set [EvGetwd (Inr ''/work''), EvOpenSandbox ''/work'' None, EvHasTerraformFiles (Inr True),
       EvGetTerraform None, EvHandle ''add-aws-cluster'' [''x''] None,
       EvHasTerraformFiles (Inr True)]"
    by simp
  from first_scaffold [OF ex_add_first a, THEN conjunct1]
  have "\<exists>x. filter (\<lambda>e. kindOf e = KInvoke)
          (snd (snd (main (exWorld [exPlugin None None] None) ''tw'' [''add-aws-cluster'', ''x''] False))) =
        [EvInvoke [''init''] x]"
    by (simp add: ex_add_first)
  moreover from first_scaffold [OF ex_add_again b, THEN conjunct2]
  have "\<forall>e\<in>set (snd (snd (main (exWorld [exPlugin None None] None) ''tw'' [''add-aws-cluster'', ''x''] True))).
      kindOf e \<noteq> KInvoke \<and> kindOf e \<noteq> KReload"
    by (simp add: ex_add_again)
  then have "filter (\<lambda>e. kindOf e = KInvoke)
       (snd (snd (main (exWorld [exPlugin None None] None) ''tw'' [''add-aws-cluster'', ''x''] True))) = []"
    and "filter (\<lambda>e. kindOf e = KReload)
       (snd (snd (main (exWorld [exPlugin None None] None) ''tw'' [''add-aws-cluster'', ''x''] True))) = []"
    by (simp_all add: filter_kind_none)
  ultimately show ?thesis by simp
qed

end
